theory Spec2Isabelle
  imports
    Complex_Main
    "HOL-Library.AList"
    "HOL-Library.Char_ord"
    "HOL-Library.List_Lexorder"
    "HOL-Library.Product_Lexorder"
begin

section \<open>Conventions of the embedding\<close>

text \<open>
  The development embeds \<^verbatim>\<open>tp1/knoledge_graphs\<close> (data.py, graph.py,
  recommendation.py). Conventions:
  \<^item> a Python \<^verbatim>\<open>float\<close> is a \<^typ>\<open>real\<close>: arithmetic is exact, rounding and
    overflow of IEEE doubles are not modelled;
  \<^item> a Python \<^verbatim>\<open>dict\<close> is an association list in insertion order; a store
    \<^verbatim>\<open>d[k] = v\<close> is \<^const>\<open>AList.update\<close> (an existing key keeps its place, a
    new key goes to the end);
  \<^item> a comprehension over the items of a dict that keeps the keys is a \<^const>\<open>map\<close>
    over the association list; the constructors \<^verbatim>\<open>dict(...)\<close>, \<^verbatim>\<open>Counter(...)\<close> and
    \<^verbatim>\<open>set(...)\<close> rebuild their argument element by element;
  \<^item> a Python \<^verbatim>\<open>set\<close> is a list without repetition, in insertion order; the
    code only tests membership and accumulates over sets, and sorts every list
    it returns;
  \<^item> an exception is the left summand of \<open>error + 'a\<close>;
  \<^item> \<^verbatim>\<open>date\<close> and \<^verbatim>\<open>datetime\<close> values are kept as the text they are parsed
    from; the engine never reads them.
\<close>

datatype error = ValueError string | KeyError string

type_synonym ('k, 'v) dict = "('k \<times> 'v) list"

text \<open>\<^verbatim>\<open>d.get(k, default)\<close>\<close>

definition get_default :: "('k, 'v) dict \<Rightarrow> 'k \<Rightarrow> 'v \<Rightarrow> 'v" where
  "get_default d k dflt = (case map_of d k of None \<Rightarrow> dflt | Some v \<Rightarrow> v)"

text \<open>\<^verbatim>\<open>d[k]\<close> as an expression: KeyError on a missing key.\<close>

definition getitem :: "(string, 'v) dict \<Rightarrow> string \<Rightarrow> error + 'v" where
  "getitem d k = (case map_of d k of None \<Rightarrow> Inl (KeyError k) | Some v \<Rightarrow> Inr v)"

text \<open>\<^verbatim>\<open>{k: v for ...}\<close> and \<^verbatim>\<open>dict(...)\<close>: built by successive stores.\<close>

definition dict_of :: "('k \<times> 'v) list \<Rightarrow> ('k, 'v) dict" where
  "dict_of kvs = foldl (\<lambda>d (k, v). AList.update k v d) [] kvs"

text \<open>\<^verbatim>\<open>s.add(x)\<close>\<close>

definition set_add :: "'a \<Rightarrow> 'a list \<Rightarrow> 'a list" where
  "set_add x s = (if x \<in> set s then s else s @ [x])"

text \<open>\<^verbatim>\<open>set(iterable)\<close> and set comprehensions\<close>

definition set_of :: "'a list \<Rightarrow> 'a list" where
  "set_of xs = foldl (\<lambda>s x. set_add x s) [] xs"

text \<open>\<^verbatim>\<open>a.union(b)\<close>, \<^verbatim>\<open>a | b\<close> and \<^verbatim>\<open>a & b\<close>\<close>

definition set_union :: "'a list \<Rightarrow> 'a list \<Rightarrow> 'a list" where
  "set_union a b = foldl (\<lambda>s x. set_add x s) a b"

definition set_inter :: "'a list \<Rightarrow> 'a list \<Rightarrow> 'a list" where
  "set_inter a b = filter (\<lambda>x. x \<in> set b) a"

text \<open>\<^verbatim>\<open>xs[:n]\<close>: a negative bound counts from the end.\<close>

definition slice_to :: "int \<Rightarrow> 'a list \<Rightarrow> 'a list" where
  "slice_to n xs = (if 0 \<le> n then take (nat n) xs else take (nat (int (length xs) + n)) xs)"

text \<open>Evaluating a list of fallible expressions left to right.\<close>

fun sequence :: "('e + 'a) list \<Rightarrow> 'e + 'a list" where
  "sequence [] = Inr []"
| "sequence (Inl e # _) = Inl e"
| "sequence (Inr x # rs) = (case sequence rs of Inl e \<Rightarrow> Inl e | Inr xs \<Rightarrow> Inr (x # xs))"

section \<open>data.py\<close>

record Customer =
  customer_id :: string
  customer_name :: string
  join_date :: string

record Category =
  category_id :: string
  category_name :: string

record Product =
  product_id :: string
  product_name :: string
  price :: real
  product_category_id :: string

record OrderItem =
  item_product_id :: string
  quantity :: int

record Order =
  order_id :: string
  order_customer_id :: string
  placed_at :: string
  items :: "OrderItem list"

definition add_item :: "string \<Rightarrow> int \<Rightarrow> Order \<Rightarrow> Order" where
  "add_item pid q ord = ord\<lparr>items := items ord @ [\<lparr>item_product_id = pid, quantity = q\<rparr>]\<rparr>"

record Event =
  event_id :: string
  event_customer_id :: string
  event_product_id :: string
  event_type :: string
  occurred_at :: string

record Dataset =
  customers :: "(string, Customer) dict"
  categories :: "(string, Category) dict"
  products :: "(string, Product) dict"
  orders :: "(string, Order) dict"
  events :: "Event list"

definition customer_ids :: "Dataset \<Rightarrow> string list" where
  "customer_ids ds = map fst (customers ds)"

definition product_ids :: "Dataset \<Rightarrow> string list" where
  "product_ids ds = map fst (products ds)"

definition load_dataset :: Dataset where
  "load_dataset =
    \<lparr>customers =
       [(''C1'', \<lparr>customer_id = ''C1'', customer_name = ''Alice'', join_date = ''2024-01-02''\<rparr>),
        (''C2'', \<lparr>customer_id = ''C2'', customer_name = ''Bob'', join_date = ''2024-02-11''\<rparr>),
        (''C3'', \<lparr>customer_id = ''C3'', customer_name = ''Chlo'' @ [CHR 0xC3, CHR 0xA9],
                 join_date = ''2024-03-05''\<rparr>)],
     categories =
       [(''CAT1'', \<lparr>category_id = ''CAT1'', category_name = ''Electronics''\<rparr>),
        (''CAT2'', \<lparr>category_id = ''CAT2'', category_name = ''Books''\<rparr>)],
     products =
       [(''P1'', \<lparr>product_id = ''P1'', product_name = ''Wireless Mouse'', price = 2999 / 100,
                 product_category_id = ''CAT1''\<rparr>),
        (''P2'', \<lparr>product_id = ''P2'', product_name = ''USB-C Hub'', price = 49,
                 product_category_id = ''CAT1''\<rparr>),
        (''P3'', \<lparr>product_id = ''P3'', product_name = ''Graph Databases Book'', price = 39,
                 product_category_id = ''CAT2''\<rparr>),
        (''P4'', \<lparr>product_id = ''P4'', product_name = ''Mechanical Keyboard'', price = 89,
                 product_category_id = ''CAT1''\<rparr>)],
     orders =
       [(''O1'', add_item ''P2'' 1 (add_item ''P1'' 1
                   \<lparr>order_id = ''O1'', order_customer_id = ''C1'',
                    placed_at = ''2024-04-01T10:15:00Z'', items = []\<rparr>)),
        (''O2'', add_item ''P3'' 1
                   \<lparr>order_id = ''O2'', order_customer_id = ''C2'',
                    placed_at = ''2024-04-02T12:30:00Z'', items = []\<rparr>),
        (''O3'', add_item ''P2'' 1 (add_item ''P4'' 1
                   \<lparr>order_id = ''O3'', order_customer_id = ''C1'',
                    placed_at = ''2024-04-05T08:05:00Z'', items = []\<rparr>))],
     events =
       [\<lparr>event_id = ''E1'', event_customer_id = ''C1'', event_product_id = ''P3'',
         event_type = ''view'', occurred_at = ''2024-04-01T09:00:00Z''\<rparr>,
        \<lparr>event_id = ''E2'', event_customer_id = ''C1'', event_product_id = ''P3'',
         event_type = ''click'', occurred_at = ''2024-04-01T09:01:00Z''\<rparr>,
        \<lparr>event_id = ''E3'', event_customer_id = ''C3'', event_product_id = ''P1'',
         event_type = ''view'', occurred_at = ''2024-04-03T16:20:00Z''\<rparr>,
        \<lparr>event_id = ''E4'', event_customer_id = ''C2'', event_product_id = ''P2'',
         event_type = ''view'', occurred_at = ''2024-04-03T12:00:00Z''\<rparr>,
        \<lparr>event_id = ''E5'', event_customer_id = ''C2'', event_product_id = ''P4'',
         event_type = ''add_to_cart'', occurred_at = ''2024-04-03T12:10:00Z''\<rparr>]\<rparr>"

section \<open>graph.py\<close>

definition EVENT_WEIGHTS :: "(string, real) dict" where
  "EVENT_WEIGHTS = [(''view'', 1 / 2), (''click'', 1), (''add_to_cart'', 2)]"

record GraphData =
  dataset :: Dataset
  product_cooccurrence :: "(string, (string, nat) dict) dict"
  product_customers :: "(string, string list) dict"
  customer_products :: "(string, string list) dict"
  event_weights :: "(string \<times> string, real) dict"
  product_adjacency :: "(string, (string, real) dict) dict"

definition neighbors :: "GraphData \<Rightarrow> string \<Rightarrow> (string, real) dict" where
  "neighbors g pid = get_default (product_adjacency g) pid []"

definition initial_adjacency :: "string list \<Rightarrow> (string, (string, real) dict) dict" where
  "initial_adjacency pids = dict_of (map (\<lambda>pid. (pid, [])) pids)"

text \<open>\<^verbatim>\<open>itertools.combinations(xs, 2)\<close>\<close>

fun combinations2 :: "'a list \<Rightarrow> ('a \<times> 'a) list" where
  "combinations2 [] = []"
| "combinations2 (x # xs) = map (Pair x) xs @ combinations2 xs"

text \<open>
  The four accumulators of \<^verbatim>\<open>build_graph\<close>. A \<^verbatim>\<open>defaultdict\<close> read of a
  missing key inserts the default, so \<^verbatim>\<open>d[k].add(x)\<close> and \<^verbatim>\<open>d[k][j] += 1\<close>
  are a read with default followed by a store.
\<close>

record accumulators =
  acc_cooccurrence :: "(string, (string, nat) dict) dict"
  acc_product_customers :: "(string, string list) dict"
  acc_customer_products :: "(string, string list) dict"
  acc_event_weights :: "(string \<times> string, real) dict"

definition dd_add :: "'k \<Rightarrow> 'a \<Rightarrow> ('k, 'a list) dict \<Rightarrow> ('k, 'a list) dict" where
  "dd_add k x d = AList.update k (set_add x (get_default d k [])) d"

definition counter_incr :: "string \<Rightarrow> string \<Rightarrow> (string, (string, nat) dict) dict
    \<Rightarrow> (string, (string, nat) dict) dict" where
  "counter_incr l r d =
     (let row = get_default d l []
      in AList.update l (AList.update r (get_default row r 0 + 1) row) d)"

definition add_incidence :: "string \<Rightarrow> string \<Rightarrow> accumulators \<Rightarrow> accumulators" where
  "add_incidence pid cid acc =
     acc\<lparr>acc_product_customers := dd_add pid cid (acc_product_customers acc),
         acc_customer_products := dd_add cid pid (acc_customer_products acc)\<rparr>"

definition add_pair :: "accumulators \<Rightarrow> string \<times> string \<Rightarrow> accumulators" where
  "add_pair acc lr =
     (case lr of (left, right) \<Rightarrow>
        acc\<lparr>acc_cooccurrence :=
              counter_incr right left (counter_incr left right (acc_cooccurrence acc))\<rparr>)"

definition process_order :: "accumulators \<Rightarrow> Order \<Rightarrow> accumulators" where
  "process_order acc ord =
     (let products_in_order = map item_product_id (items ord);
          acc1 = foldl (\<lambda>a pid. add_incidence pid (order_customer_id ord) a) acc products_in_order
      in foldl add_pair acc1 (combinations2 products_in_order))"

definition process_event :: "accumulators \<Rightarrow> Event \<Rightarrow> accumulators" where
  "process_event acc ev =
     (let acc1 = add_incidence (event_product_id ev) (event_customer_id ev) acc;
          weight = get_default EVENT_WEIGHTS (event_type ev) 0;
          key = (event_customer_id ev, event_product_id ev)
      in acc1\<lparr>acc_event_weights :=
                AList.update key (get_default (acc_event_weights acc1) key 0 + weight)
                  (acc_event_weights acc1)\<rparr>)"

text \<open>\<^verbatim>\<open>{neighbor_id: count / total for neighbor_id, count in neighbors.items()}\<close>\<close>

definition scaled_row :: "(string, nat) dict \<Rightarrow> nat \<Rightarrow> (string, real) dict" where
  "scaled_row nbrs n = map (\<lambda>(nid, count). (nid, real count / real n)) nbrs"

definition normalize_row :: "(string, (string, real) dict) dict \<Rightarrow> string \<times> (string, nat) dict
    \<Rightarrow> (string, (string, real) dict) dict" where
  "normalize_row adjacency entry =
     (case entry of (pid, nbrs) \<Rightarrow>
        (let total = sum_list (map snd nbrs)
         in if total = 0 then adjacency
            else AList.update pid (scaled_row nbrs total) adjacency))"

text \<open>The two loops of \<^verbatim>\<open>build_graph\<close>, over the orders and over the events.\<close>

definition accumulate :: "Dataset \<Rightarrow> accumulators" where
  "accumulate ds =
     (let acc0 = \<lparr>acc_cooccurrence = [], acc_product_customers = [],
                  acc_customer_products = [], acc_event_weights = []\<rparr>;
          acc1 = foldl process_order acc0 (map snd (orders ds))
      in foldl process_event acc1 (events ds))"

definition build_graph :: "Dataset \<Rightarrow> GraphData" where
  "build_graph ds =
     (let acc = accumulate ds;
          adjacency = foldl normalize_row (initial_adjacency (product_ids ds))
                        (acc_cooccurrence acc)
      in \<lparr>dataset = ds,
          product_cooccurrence = map (\<lambda>(k, v). (k, dict_of v)) (acc_cooccurrence acc),
          product_customers = map (\<lambda>(k, v). (k, set_of v)) (acc_product_customers acc),
          customer_products = map (\<lambda>(k, v). (k, set_of v)) (acc_customer_products acc),
          event_weights = dict_of (acc_event_weights acc),
          product_adjacency = adjacency\<rparr>)"

section \<open>recommendation.py\<close>

definition STRATEGY_WEIGHTS :: "(string, real) dict" where
  "STRATEGY_WEIGHTS =
     [(''co_occurrence'', 4 / 10), (''similarity'', 3 / 10), (''personalized_pagerank'', 3 / 10)]"

record Recommendation =
  rec_product_id :: string
  score :: real
  contributions :: "(string, real) dict"

text \<open>
  The attributes of a \<^verbatim>\<open>RecommendationEngine\<close>; \<open>engine_product_ids\<close> is
  \<^verbatim>\<open>_product_ids\<close> and \<open>global_pagerank\<close> is \<^verbatim>\<open>_global_pagerank\<close>.
\<close>

record RecommendationEngine =
  graph :: GraphData
  damping :: real
  tolerance :: real
  max_iterations :: int
  engine_product_ids :: "string list"
  global_pagerank :: "(string, real) dict"

text \<open>A loop whose body may raise stops at the first exception.\<close>

fun fold_err :: "('s \<Rightarrow> 'a \<Rightarrow> 'e + 's) \<Rightarrow> 's \<Rightarrow> 'a list \<Rightarrow> 'e + 's" where
  "fold_err f s [] = Inr s"
| "fold_err f s (x # xs) = (case f s x of Inl e \<Rightarrow> Inl e | Inr s' \<Rightarrow> fold_err f s' xs)"

definition ensure_known_customer :: "RecommendationEngine \<Rightarrow> string \<Rightarrow> error + unit" where
  "ensure_known_customer e cid =
     (if cid \<notin> set (map fst (customers (dataset (graph e))))
      then Inl (ValueError (''Unknown customer: '' @ cid)) else Inr ())"

definition interacted_products :: "RecommendationEngine \<Rightarrow> string \<Rightarrow> string list" where
  "interacted_products e cid =
     set_of (map (\<lambda>((c, pid), weight). pid)
       (filter (\<lambda>((c, pid), weight). c = cid \<and> weight > 0) (event_weights (graph e))))"

definition co_occurrence_scores :: "RecommendationEngine \<Rightarrow> string list \<Rightarrow> (string, real) dict" where
  "co_occurrence_scores e seeds =
     foldl (\<lambda>scores seed.
        foldl (\<lambda>scores (candidate, weight).
           if candidate \<in> set seeds then scores
           else AList.update candidate (get_default scores candidate 0 + real weight) scores)
          scores (get_default (product_cooccurrence (graph e)) seed []))
       [] seeds"

definition jaccard_step :: "RecommendationEngine \<Rightarrow> string list \<Rightarrow> real \<Rightarrow> string \<Rightarrow> real" where
  "jaccard_step e candidate_customers accumulator seed =
     (let seed_customers = get_default (product_customers (graph e)) seed []
      in if seed_customers = [] \<and> candidate_customers = [] then accumulator
         else let union = set_union seed_customers candidate_customers
              in if union = [] then accumulator
                 else let intersection = set_inter seed_customers candidate_customers
                      in if intersection = [] then accumulator
                         else accumulator + real (length intersection) / real (length union))"

definition similarity_scores :: "RecommendationEngine \<Rightarrow> string list \<Rightarrow> (string, real) dict" where
  "similarity_scores e seeds =
     foldl (\<lambda>scores (candidate, candidate_customers).
        if candidate \<in> set seeds then scores
        else let accumulator = foldl (jaccard_step e candidate_customers) 0 seeds
             in if accumulator > 0 then AList.update candidate accumulator scores else scores)
       [] (product_customers (graph e))"

definition uniform_personalization :: "RecommendationEngine \<Rightarrow> (string, real) dict" where
  "uniform_personalization e =
     (if engine_product_ids e = [] then []
      else let weight = 1 / real (length (engine_product_ids e))
           in dict_of (map (\<lambda>pid. (pid, weight)) (engine_product_ids e)))"

definition normalize_personalization :: "RecommendationEngine \<Rightarrow> (string, real) dict
    \<Rightarrow> (string, real) dict" where
  "normalize_personalization e vals =
     (let total = sum_list (map (\<lambda>pid. get_default vals pid 0) (engine_product_ids e))
      in if total = 0 then uniform_personalization e
         else dict_of (map (\<lambda>pid. (pid, get_default vals pid 0 / total)) (engine_product_ids e)))"

text \<open>\<^verbatim>\<open>new_ranks[neighbor] += damping * ranks[product_id] * weight\<close>\<close>

definition push_rank :: "real \<Rightarrow> (string, real) dict \<Rightarrow> string \<Rightarrow> (string, real) dict
    \<Rightarrow> string \<times> real \<Rightarrow> error + (string, real) dict" where
  "push_rank d ranks pid new_ranks edge =
     (case edge of (neighbor, weight) \<Rightarrow>
        (case getitem new_ranks neighbor of Inl err \<Rightarrow> Inl err
         | Inr old \<Rightarrow>
            (case getitem ranks pid of Inl err \<Rightarrow> Inl err
             | Inr r \<Rightarrow> Inr (AList.update neighbor (old + d * r * weight) new_ranks))))"

definition propagate :: "RecommendationEngine \<Rightarrow> (string, real) dict \<Rightarrow> (string, real) dict
    \<Rightarrow> string \<Rightarrow> error + (string, real) dict" where
  "propagate e ranks new_ranks pid =
     (let nbrs = get_default (product_adjacency (graph e)) pid []
      in if nbrs = [] then Inr new_ranks
         else fold_err (push_rank (damping e) ranks pid) new_ranks nbrs)"

text \<open>\<^verbatim>\<open>new_ranks[product_id] += leak\<close>\<close>

definition add_leak :: "real \<Rightarrow> (string, real) dict \<Rightarrow> string \<Rightarrow> error + (string, real) dict" where
  "add_leak leak new_ranks pid =
     (case getitem new_ranks pid of Inl err \<Rightarrow> Inl err
      | Inr old \<Rightarrow> Inr (AList.update pid (old + leak) new_ranks))"

definition rank_change :: "(string, real) dict \<Rightarrow> (string, real) dict \<Rightarrow> string \<Rightarrow> error + real" where
  "rank_change new_ranks ranks pid =
     (case getitem new_ranks pid of Inl err \<Rightarrow> Inl err
      | Inr a \<Rightarrow> (case getitem ranks pid of Inl err \<Rightarrow> Inl err | Inr b \<Rightarrow> Inr \<bar>a - b\<bar>))"

text \<open>One pass of the body of the \<^verbatim>\<open>for _ in range(max_iterations)\<close> loop,
  returning \<^verbatim>\<open>new_ranks\<close> and \<^verbatim>\<open>delta\<close>.\<close>

definition pagerank_iteration :: "RecommendationEngine \<Rightarrow> (string, real) dict
    \<Rightarrow> (string, real) dict \<Rightarrow> error + ((string, real) dict \<times> real)" where
  "pagerank_iteration e personalization ranks =
     (let pids = engine_product_ids e;
          new_ranks0 = dict_of (map (\<lambda>pid. (pid, (1 - damping e) * get_default personalization pid 0))
                          pids)
      in case sequence (map (getitem ranks)
                (filter (\<lambda>pid. get_default (product_adjacency (graph e)) pid [] = []) pids)) of
           Inl err \<Rightarrow> Inl err
         | Inr sink_ranks \<Rightarrow>
            (let sink_rank = sum_list sink_ranks;
                 leak = damping e * sink_rank / real (length pids)
             in case fold_err (propagate e ranks) new_ranks0 pids of
                  Inl err \<Rightarrow> Inl err
                | Inr new_ranks1 \<Rightarrow>
                   (case (if leak \<noteq> 0 then fold_err (add_leak leak) new_ranks1 pids
                          else Inr new_ranks1) of
                      Inl err \<Rightarrow> Inl err
                    | Inr new_ranks \<Rightarrow>
                       (case sequence (map (rank_change new_ranks ranks) pids) of
                          Inl err \<Rightarrow> Inl err
                        | Inr changes \<Rightarrow> Inr (new_ranks, sum_list changes)))))"

fun pagerank_loop :: "RecommendationEngine \<Rightarrow> (string, real) dict \<Rightarrow> nat
    \<Rightarrow> (string, real) dict \<Rightarrow> error + (string, real) dict" where
  "pagerank_loop e personalization 0 ranks = Inr ranks"
| "pagerank_loop e personalization (Suc n) ranks =
     (case pagerank_iteration e personalization ranks of
        Inl err \<Rightarrow> Inl err
      | Inr (new_ranks, delta) \<Rightarrow>
          if delta < tolerance e then Inr new_ranks
          else pagerank_loop e personalization n new_ranks)"

definition run_pagerank :: "RecommendationEngine \<Rightarrow> (string, real) dict
    \<Rightarrow> error + (string, real) dict" where
  "run_pagerank e personalization =
     (if engine_product_ids e = [] then Inr []
      else let ranks = dict_of (map (\<lambda>pid. (pid, 1 / real (length (engine_product_ids e))))
                          (engine_product_ids e));
               personalization' = normalize_personalization e personalization
           in pagerank_loop e personalization' (nat (max_iterations e)) ranks)"

definition personalized_pagerank :: "RecommendationEngine \<Rightarrow> string list
    \<Rightarrow> error + (string, real) dict" where
  "personalized_pagerank e seeds =
     (let personalization = dict_of (map (\<lambda>pid. (pid, 0)) (engine_product_ids e))
      in if seeds = [] then Inr (global_pagerank e)
         else let seed_weight = 1 / real (length seeds)
              in run_pagerank e
                   (foldl (\<lambda>p seed. AList.update seed seed_weight p) personalization seeds))"

definition normalize_scores :: "(string, real) dict \<Rightarrow> (string, real) dict" where
  "normalize_scores scores =
     (case map snd scores of
        [] \<Rightarrow> []
      | v # vs \<Rightarrow>
         (let max_value = fold max vs v
          in if max_value = 0 then map (\<lambda>(key, val). (key, 0)) scores
             else map (\<lambda>(key, val). (key, val / max_value)) scores))"

definition add_contribution :: "string \<Rightarrow> real \<Rightarrow> string list
    \<Rightarrow> (string, (string, real) dict) dict \<Rightarrow> string \<times> real
    \<Rightarrow> (string, (string, real) dict) dict" where
  "add_contribution name weight exclude combined entry =
     (case entry of (pid, val) \<Rightarrow>
        if pid \<in> set exclude \<or> val \<le> 0 then combined
        else AList.update pid (AList.update name (val * weight) (get_default combined pid []))
               combined)"

text \<open>The body of the loop over \<^verbatim>\<open>strategies.items()\<close>.\<close>

definition add_strategy :: "string list \<Rightarrow> (string, (string, real) dict) dict
    \<Rightarrow> string \<times> (string, real) dict \<Rightarrow> (string, (string, real) dict) dict" where
  "add_strategy exclude combined entry =
     (case entry of (name, scores) \<Rightarrow>
        (let weight = get_default STRATEGY_WEIGHTS name 0
         in if weight = 0 then combined
            else foldl (add_contribution name weight exclude) combined scores))"

definition to_recommendation :: "string \<times> (string, real) dict \<Rightarrow> Recommendation" where
  "to_recommendation entry =
     (case entry of (pid, contribs) \<Rightarrow>
        \<lparr>rec_product_id = pid, score = sum_list (map snd contribs), contributions = contribs\<rparr>)"

definition combine_strategies :: "(string, (string, real) dict) dict \<Rightarrow> string list
    \<Rightarrow> Recommendation list" where
  "combine_strategies strategies exclude =
     (let combined = foldl (add_strategy exclude) [] strategies;
          recommendations = map to_recommendation combined
      in sort_key (\<lambda>r. (- score r, rec_product_id r)) recommendations)"

definition top_items :: "(string, real) dict \<Rightarrow> int \<Rightarrow> string list \<Rightarrow> (string \<times> real) list" where
  "top_items scores top_n exclude =
     (let ranked = filter (\<lambda>item. fst item \<notin> set exclude) scores
      in slice_to top_n (sort_key (\<lambda>item. (- snd item, fst item)) ranked))"

definition fallback_top_pagerank :: "RecommendationEngine \<Rightarrow> int \<Rightarrow> Recommendation list" where
  "fallback_top_pagerank e top_n =
     map (\<lambda>(pid, s). \<lparr>rec_product_id = pid, score = s,
                       contributions = [(''global_pagerank'', s)]\<rparr>)
       (top_items (global_pagerank e) top_n [])"

text \<open>
  The list \<^verbatim>\<open>combined\<close> of \<^verbatim>\<open>recommend_for_customer\<close>, before the
  final \<^verbatim>\<open>[:top_n]\<close>.
\<close>

definition fused_ranking :: "RecommendationEngine \<Rightarrow> string list \<Rightarrow> string list
    \<Rightarrow> error + Recommendation list" where
  "fused_ranking e seeds exclude =
     (let co = normalize_scores (co_occurrence_scores e seeds);
          sim = normalize_scores (similarity_scores e seeds)
      in case personalized_pagerank e seeds of
           Inl err \<Rightarrow> Inl err
         | Inr ppr \<Rightarrow>
             Inr (combine_strategies
                    [(''co_occurrence'', co), (''similarity'', sim),
                     (''personalized_pagerank'', normalize_scores ppr)] exclude))"

text \<open>The locals \<^verbatim>\<open>purchased\<close> and \<^verbatim>\<open>seeds\<close> of \<^verbatim>\<open>recommend_for_customer\<close>
  and \<^verbatim>\<open>strategy_breakdown\<close>.\<close>

definition purchased_products :: "RecommendationEngine \<Rightarrow> string \<Rightarrow> string list" where
  "purchased_products e cid = set_of (get_default (customer_products (graph e)) cid [])"

definition seed_products :: "RecommendationEngine \<Rightarrow> string \<Rightarrow> string list" where
  "seed_products e cid =
     (if purchased_products e cid \<noteq> [] then purchased_products e cid
      else interacted_products e cid)"

definition recommend_for_customer :: "RecommendationEngine \<Rightarrow> string \<Rightarrow> int
    \<Rightarrow> error + Recommendation list" where
  "recommend_for_customer e cid top_n =
     (case ensure_known_customer e cid of
        Inl err \<Rightarrow> Inl err
      | Inr _ \<Rightarrow>
         (let purchased = purchased_products e cid;
              interacted = interacted_products e cid;
              seeds = seed_products e cid
          in if seeds = [] then Inr (fallback_top_pagerank e top_n)
             else (case fused_ranking e seeds (set_union purchased interacted) of
                     Inl err \<Rightarrow> Inl err
                   | Inr combined \<Rightarrow> Inr (slice_to top_n combined))))"

definition strategy_breakdown :: "RecommendationEngine \<Rightarrow> string \<Rightarrow> int
    \<Rightarrow> error + (string, (string \<times> real) list) dict" where
  "strategy_breakdown e cid top_n =
     (case ensure_known_customer e cid of
        Inl err \<Rightarrow> Inl err
      | Inr _ \<Rightarrow>
         (let purchased = purchased_products e cid;
              interacted = interacted_products e cid;
              seeds = seed_products e cid
          in if seeds = [] then Inr [(''global_pagerank'', top_items (global_pagerank e) top_n [])]
             else (let co = co_occurrence_scores e seeds;
                       sim = similarity_scores e seeds
                   in case personalized_pagerank e seeds of
                        Inl err \<Rightarrow> Inl err
                      | Inr ppr \<Rightarrow>
                          Inr (dict_of
                            (map (\<lambda>(name, scores).
                                    (name, top_items scores top_n (set_union purchased interacted)))
                               [(''co_occurrence'', co), (''similarity'', sim),
                                (''personalized_pagerank'', ppr)])))))"

text \<open>\<^verbatim>\<open>RecommendationEngine.__init__\<close>: \<^verbatim>\<open>_global_pagerank\<close> is computed by
  \<^verbatim>\<open>_run_pagerank\<close> on the engine whose other attributes are already set.\<close>

definition engine_init :: "GraphData \<Rightarrow> real \<Rightarrow> real \<Rightarrow> int \<Rightarrow> error + RecommendationEngine" where
  "engine_init g d tol max_iter =
     (let e = \<lparr>graph = g, damping = d, tolerance = tol, max_iterations = max_iter,
               engine_product_ids = map fst (product_adjacency g), global_pagerank = []\<rparr>
      in case run_pagerank e (uniform_personalization e) of
           Inl err \<Rightarrow> Inl err
         | Inr ranks \<Rightarrow> Inr (e\<lparr>global_pagerank := ranks\<rparr>))"

text \<open>The engine with the default keyword arguments, \<^verbatim>\<open>RecommendationEngine(graph)\<close>.\<close>

definition default_engine :: "GraphData \<Rightarrow> error + RecommendationEngine" where
  "default_engine g = engine_init g (85 / 100) (1 / 10 ^ 6) 50"

text \<open>main.py: the module-level dataset, graph and engine.\<close>

definition DATASET :: Dataset where
  "DATASET = load_dataset"

definition GRAPH :: GraphData where
  "GRAPH = build_graph DATASET"

definition ENGINE :: "error + RecommendationEngine" where
  "ENGINE = default_engine GRAPH"

section \<open>Example data\<close>

text \<open>The reference dataset with one more customer, who has neither orders nor events.\<close>

definition newcomer_dataset :: Dataset where
  "newcomer_dataset =
     load_dataset\<lparr>customers := customers load_dataset @
       [(''C4'', \<lparr>customer_id = ''C4'', customer_name = ''Dana'', join_date = ''2024-05-01''\<rparr>)]\<rparr>"

text \<open>The same with one event of a type that \<^const>\<open>EVENT_WEIGHTS\<close> does not know.\<close>

definition shared_dataset :: Dataset where
  "shared_dataset =
     newcomer_dataset\<lparr>events := events newcomer_dataset @
       [\<lparr>event_id = ''E6'', event_customer_id = ''C4'', event_product_id = ''P1'',
         event_type = ''share'', occurred_at = ''2024-05-02T10:00:00Z''\<rparr>]\<rparr>"

text \<open>An event of an unknown type between customer C3 and product P1, which C3 has already
  viewed.\<close>

definition repeated_share :: Event where
  "repeated_share =
     \<lparr>event_id = ''E7'', event_customer_id = ''C3'', event_product_id = ''P1'',
      event_type = ''share'', occurred_at = ''2024-05-03T10:00:00Z''\<rparr>"

text \<open>The fused ranking of customer C3 on that data, for an engine that iterates once.\<close>

definition C3_ranking :: "Recommendation list" where
  "C3_ranking =
     [\<lparr>rec_product_id = ''P2'', score = 1,
        contributions = [(''co_occurrence'', 2 / 5), (''similarity'', 3 / 10),
                         (''personalized_pagerank'', 3 / 10)]\<rparr>,
      \<lparr>rec_product_id = ''P4'', score = 2 / 5,
        contributions = [(''similarity'', 3 / 10), (''personalized_pagerank'', 1 / 10)]\<rparr>,
      \<lparr>rec_product_id = ''P3'', score = 1 / 3,
        contributions = [(''similarity'', 3 / 10), (''personalized_pagerank'', 1 / 30)]\<rparr>]"

section \<open>Predicates used in the proofs\<close>

definition is_value_error :: "error \<Rightarrow> bool" where
  "is_value_error err = (case err of ValueError m \<Rightarrow> True | KeyError k \<Rightarrow> False)"

definition no_value_error :: "error + 'a \<Rightarrow> bool" where
  "no_value_error r = (case r of Inl err \<Rightarrow> \<not> is_value_error err | Inr x \<Rightarrow> True)"

text \<open>Every entry of the dict \<^verbatim>\<open>combined\<close> of \<^verbatim>\<open>_combine_strategies\<close> has
  a product that is not excluded and a non-empty dict of positive contributions.\<close>

definition contributions_ok :: "string list \<Rightarrow> (string, (string, real) dict) dict \<Rightarrow> bool" where
  "contributions_ok exclude combined =
     (\<forall>entry \<in> set combined.
        fst entry \<notin> set exclude \<and> snd entry \<noteq> [] \<and> (\<forall>v \<in> snd ` set (snd entry). 0 < v))"

text \<open>The adjacency of a graph is well formed when its keys are distinct, every edge leads
  to a key and has a non-negative weight, and every row is empty or sums to 1.\<close>

definition wf_adjacency :: "(string, (string, real) dict) dict \<Rightarrow> bool" where
  "wf_adjacency adj =
     (distinct (map fst adj) \<and>
      (\<forall>entry \<in> set adj.
         (\<forall>edge \<in> set (snd entry). fst edge \<in> fst ` set adj \<and> 0 \<le> snd edge) \<and>
         (snd entry = [] \<or> sum_list (map snd (snd entry)) = 1)))"

text \<open>The mass that \<^const>\<open>propagate\<close> moves out of one product.\<close>

definition outflow :: "RecommendationEngine \<Rightarrow> (string, real) dict \<Rightarrow> string \<Rightarrow> real" where
  "outflow e ranks pid =
     (let nbrs = get_default (product_adjacency (graph e)) pid []
      in if nbrs = [] then 0
         else damping e * get_default ranks pid 0 * sum_list (map snd nbrs))"

text \<open>An engine over a well-formed adjacency whose \<^verbatim>\<open>_product_ids\<close> are its keys.\<close>

definition engine_ok :: "RecommendationEngine \<Rightarrow> bool" where
  "engine_ok e =
     (engine_product_ids e = map fst (product_adjacency (graph e)) \<and>
      wf_adjacency (product_adjacency (graph e)))"

text \<open>A rank vector: one entry per product, in the order of \<^verbatim>\<open>_product_ids\<close>, of total
  mass 1.\<close>

definition rank_vector :: "RecommendationEngine \<Rightarrow> (string, real) dict \<Rightarrow> bool" where
  "rank_vector e ranks =
     (map fst ranks = engine_product_ids e \<and> sum_list (map snd ranks) = 1)"

text \<open>Every row of a co-occurrence dict is non-empty, with positive counts, and leads to
  products of the set \<open>K\<close>.\<close>

definition edges_in :: "string set \<Rightarrow> (string, (string, nat) dict) dict \<Rightarrow> bool" where
  "edges_in K cooc =
     (\<forall>entry \<in> set cooc.
        snd entry \<noteq> [] \<and> (\<forall>edge \<in> set (snd entry). fst edge \<in> K \<and> 0 < snd edge))"

definition cooc_ok :: "(string, (string, nat) dict) dict \<Rightarrow> bool" where
  "cooc_ok cooc = (distinct (map fst cooc) \<and> edges_in (fst ` set cooc) cooc)"

definition positive_values :: "(string, real) dict \<Rightarrow> bool" where
  "positive_values d = (\<forall>v \<in> snd ` set d. 0 < v)"

text \<open>The two incidence dicts of \<^verbatim>\<open>build_graph\<close> describe the same relation.\<close>

definition incidence_ok :: "accumulators \<Rightarrow> bool" where
  "incidence_ok acc =
     (\<forall>c p. p \<in> set (get_default (acc_customer_products acc) c []) \<longleftrightarrow>
            c \<in> set (get_default (acc_product_customers acc) p []))"

text \<open>Two engines that agree on everything the scoring functions read, apart from the event
  weights and the cached global PageRank.\<close>

definition same_scoring :: "RecommendationEngine \<Rightarrow> RecommendationEngine \<Rightarrow> bool" where
  "same_scoring e e' =
     (product_cooccurrence (graph e') = product_cooccurrence (graph e) \<and>
      product_customers (graph e') = product_customers (graph e) \<and>
      customer_products (graph e') = customer_products (graph e) \<and>
      product_adjacency (graph e') = product_adjacency (graph e) \<and>
      damping e' = damping e \<and> tolerance e' = tolerance e \<and>
      max_iterations e' = max_iterations e \<and>
      engine_product_ids e' = engine_product_ids e)"

section \<open>Unknown customers\<close>

lemma is_value_error_simps [simp]:
  "is_value_error (ValueError m)" "\<not> is_value_error (KeyError k)"
  by (simp_all add: is_value_error_def)

lemma no_value_error_simps [simp]:
  "no_value_error (Inr x)" "no_value_error (Inl err) \<longleftrightarrow> \<not> is_value_error err"
  by (simp_all add: no_value_error_def)

lemma no_value_error_getitem [simp]: "no_value_error (getitem d k)"
  by (simp add: getitem_def split: option.split)

lemma no_value_error_sequence:
  "(\<And>r. r \<in> set rs \<Longrightarrow> no_value_error r) \<Longrightarrow> no_value_error (sequence rs)"
proof (induction rs rule: sequence.induct)
  case 1
  then show ?case by simp
next
  case (2 e uu)
  from 2 [of "Inl e"] show ?case by simp
next
  case (3 x rs)
  then show ?case by (cases "sequence rs") auto
qed

lemma no_value_error_fold_err:
  "(\<And>s x. no_value_error (f s x)) \<Longrightarrow> no_value_error (fold_err f s xs)"
proof (induction xs arbitrary: s)
  case Nil
  then show ?case by simp
next
  case (Cons x xs)
  show ?case
  proof (cases "f s x")
    case (Inl err)
    with Cons.prems [of s x] show ?thesis by simp
  next
    case (Inr s')
    with Cons show ?thesis by simp
  qed
qed

lemma no_value_error_push_rank [simp]: "no_value_error (push_rank d ranks pid new edge)"
  by (cases edge) (auto simp: push_rank_def getitem_def split: option.split)

lemma no_value_error_propagate [simp]: "no_value_error (propagate e ranks new pid)"
  by (simp add: propagate_def Let_def no_value_error_fold_err)

lemma no_value_error_add_leak [simp]: "no_value_error (add_leak leak new pid)"
  by (simp add: add_leak_def getitem_def split: option.split)

lemma no_value_error_rank_change [simp]: "no_value_error (rank_change new ranks pid)"
  by (simp add: rank_change_def getitem_def split: option.split)

lemma no_value_error_caseI:
  "no_value_error r \<Longrightarrow> (\<And>x. r = Inr x \<Longrightarrow> no_value_error (f x)) \<Longrightarrow>
   no_value_error (case r of Inl err \<Rightarrow> Inl err | Inr x \<Rightarrow> f x)"
  by (cases r) auto

lemma no_value_error_pagerank_iteration [simp]:
  "no_value_error (pagerank_iteration e p ranks)"
  unfolding pagerank_iteration_def Let_def
proof (intro no_value_error_caseI no_value_error_sequence)
  fix sink_ranks new_ranks1
  show "no_value_error
          (if damping e * sum_list sink_ranks / real (length (engine_product_ids e)) \<noteq> 0
           then fold_err (add_leak (damping e * sum_list sink_ranks /
                  real (length (engine_product_ids e)))) new_ranks1 (engine_product_ids e)
           else Inr new_ranks1)"
    by (simp add: no_value_error_fold_err)
qed (auto simp: no_value_error_fold_err)

lemma no_value_error_pagerank_loop [simp]: "no_value_error (pagerank_loop e p n ranks)"
proof (induction n arbitrary: ranks)
  case 0
  then show ?case by simp
next
  case (Suc n)
  show ?case
  proof (cases "pagerank_iteration e p ranks")
    case (Inl err)
    with no_value_error_pagerank_iteration [of e p ranks] show ?thesis by simp
  next
    case (Inr res)
    with Suc show ?thesis by (cases res) simp
  qed
qed

lemma no_value_error_run_pagerank [simp]: "no_value_error (run_pagerank e p)"
  by (simp add: run_pagerank_def Let_def)

lemma no_value_error_personalized_pagerank [simp]: "no_value_error (personalized_pagerank e seeds)"
  by (simp add: personalized_pagerank_def Let_def)

text \<open>
  C2: a customer identifier that is not a key of the dataset's customers makes both
  \<^const>\<open>recommend_for_customer\<close> and \<^const>\<open>strategy_breakdown\<close> raise the
  ValueError "Unknown customer: ..." (the spec's UnknownEntity); for an identifier that is a
  key, neither of them raises a ValueError at all.
\<close>

theorem unknown_customer_iff:
  "(cid \<notin> set (customer_ids (dataset (graph e))) \<longrightarrow>
      recommend_for_customer e cid top_n = Inl (ValueError (''Unknown customer: '' @ cid)) \<and>
      strategy_breakdown e cid top_n = Inl (ValueError (''Unknown customer: '' @ cid))) \<and>
   (cid \<in> set (customer_ids (dataset (graph e))) \<longrightarrow>
      (\<forall>msg. recommend_for_customer e cid top_n \<noteq> Inl (ValueError msg)) \<and>
      (\<forall>msg. strategy_breakdown e cid top_n \<noteq> Inl (ValueError msg)))"
proof (intro conjI impI allI)
  assume "cid \<notin> set (customer_ids (dataset (graph e)))"
  then show "recommend_for_customer e cid top_n = Inl (ValueError (''Unknown customer: '' @ cid))"
    and "strategy_breakdown e cid top_n = Inl (ValueError (''Unknown customer: '' @ cid))"
    by (simp_all add: recommend_for_customer_def strategy_breakdown_def ensure_known_customer_def
        customer_ids_def)
next
  fix msg
  assume known: "cid \<in> set (customer_ids (dataset (graph e)))"
  have "no_value_error (fused_ranking e seeds ex)" for seeds ex
    unfolding fused_ranking_def Let_def by (rule no_value_error_caseI) simp_all
  then have "no_value_error (recommend_for_customer e cid top_n)"
    using known unfolding recommend_for_customer_def ensure_known_customer_def Let_def
    by (auto simp: customer_ids_def intro!: no_value_error_caseI)
  then show "recommend_for_customer e cid top_n \<noteq> Inl (ValueError msg)"
    by auto
next
  fix msg
  assume known: "cid \<in> set (customer_ids (dataset (graph e)))"
  have "no_value_error (strategy_breakdown e cid top_n)"
    using known unfolding strategy_breakdown_def ensure_known_customer_def Let_def
    by (auto simp: customer_ids_def intro!: no_value_error_caseI)
  then show "strategy_breakdown e cid top_n \<noteq> Inl (ValueError msg)"
    by auto
qed

section \<open>Dictionaries, sets and slices\<close>

lemma foldl_invariant:
  assumes "P s" and "\<And>s x. P s \<Longrightarrow> x \<in> set xs \<Longrightarrow> P (f s x)"
  shows "P (foldl f s xs)"
  using assms by (induction xs arbitrary: s) auto

lemma get_default_cases:
  "(map_of d k = None \<and> get_default d k dflt = dflt)
   \<or> (\<exists>v. map_of d k = Some v \<and> (k, v) \<in> set d \<and> get_default d k dflt = v)"
  by (cases "map_of d k") (auto simp: get_default_def dest: map_of_SomeD)

lemma get_default_in: "get_default d k dflt = dflt \<or> (k, get_default d k dflt) \<in> set d"
  using get_default_cases [of d k dflt] by auto

lemma get_default_not_key: "k \<notin> fst ` set d \<Longrightarrow> get_default d k dflt = dflt"
  by (simp add: get_default_def map_of_eq_None_iff [THEN iffD2])

lemma get_default_update:
  "get_default (AList.update k v d) k' dflt = (if k' = k then v else get_default d k' dflt)"
  by (simp add: get_default_def update_conv')

lemma set_update_cases:
  "kv \<in> set (AList.update k v al) \<Longrightarrow> kv = (k, v) \<or> kv \<in> set al"
  by (induction al) (auto split: if_splits)

lemma update_mem: "(k, v) \<in> set (AList.update k v al)"
  by (induction al) auto

lemma update_mem_other: "kv \<in> set al \<Longrightarrow> fst kv \<noteq> k \<Longrightarrow> kv \<in> set (AList.update k v al)"
  by (induction al) auto

lemma keys_update: "fst ` set (AList.update k v al) = insert k (fst ` set al)"
  using dom_update [of k v al] by auto

lemma distinct_dict_of_aux:
  "distinct (map fst d) \<Longrightarrow> distinct (map fst (foldl (\<lambda>d (k, v). AList.update k v d) d kvs))"
  by (induction kvs arbitrary: d) (auto simp: distinct_update)

lemma distinct_dict_of [simp]: "distinct (map fst (dict_of kvs))"
  by (simp add: dict_of_def distinct_dict_of_aux)

lemma dict_of_fresh_aux:
  "distinct (map fst (d @ kvs)) \<Longrightarrow> foldl (\<lambda>d (k, v). AList.update k v d) d kvs = d @ kvs"
proof (induction kvs arbitrary: d)
  case Nil
  then show ?case by simp
next
  case (Cons kv kvs)
  obtain k v where kv: "kv = (k, v)" by (cases kv)
  from Cons.prems kv have "k \<notin> fst ` set d" by auto
  then have up: "AList.update k v d = d @ [(k, v)]"
    by (induction d) auto
  from Cons.prems kv have "distinct (map fst ((d @ [(k, v)]) @ kvs))" by auto
  from Cons.IH [OF this] show ?case by (simp add: kv up)
qed

lemma dict_of_distinct: "distinct (map fst kvs) \<Longrightarrow> dict_of kvs = kvs"
  using dict_of_fresh_aux [of "[]" kvs] by (simp add: dict_of_def)

lemma set_dict_of_aux:
  "kv \<in> set (foldl (\<lambda>d (k, v). AList.update k v d) d kvs) \<Longrightarrow> kv \<in> set d \<or> kv \<in> set kvs"
proof (induction kvs arbitrary: d)
  case Nil
  then show ?case by simp
next
  case (Cons a kvs)
  obtain k v where a: "a = (k, v)" by (cases a)
  from Cons.prems have "kv \<in> set (foldl (\<lambda>d (k, v). AList.update k v d) (AList.update k v d) kvs)"
    by (simp add: a)
  from Cons.IH [OF this] show ?case
    using set_update_cases [of kv k v d] by (auto simp: a)
qed

lemma set_dict_of_subset: "set (dict_of kvs) \<subseteq> set kvs"
  using set_dict_of_aux [of _ "[]" kvs] by (auto simp: dict_of_def)

lemma keys_dict_of_aux:
  "fst ` set (foldl (\<lambda>d (k, v). AList.update k v d) d kvs) = fst ` set d \<union> fst ` set kvs"
proof (induction kvs arbitrary: d)
  case Nil
  then show ?case by simp
next
  case (Cons a kvs)
  obtain k v where a: "a = (k, v)" by (cases a)
  show ?case
    unfolding a by (simp add: Cons.IH keys_update del: image_insert) auto
qed

lemma keys_dict_of [simp]: "fst ` set (dict_of kvs) = fst ` set kvs"
  by (simp add: dict_of_def keys_dict_of_aux)

lemma set_set_add [simp]: "set (set_add x s) = insert x (set s)"
  by (auto simp: set_add_def)

lemma distinct_set_add [simp]: "distinct (set_add x s) = distinct s"
  by (auto simp: set_add_def)

lemma set_set_union [simp]: "set (set_union a b) = set a \<union> set b"
  unfolding set_union_def by (induction b arbitrary: a) auto

lemma set_set_of [simp]: "set (set_of xs) = set xs"
  using set_set_union [of "[]" xs] by (simp add: set_of_def set_union_def)

lemma set_of_Nil_iff [simp]: "set_of xs = [] \<longleftrightarrow> xs = []"
  using set_set_of [of xs] by (metis set_empty)

lemma set_slice_to: "set (slice_to n xs) \<subseteq> set xs"
  by (auto simp: slice_to_def dest: in_set_takeD)

lemma slice_to_map: "slice_to n (map f xs) = map f (slice_to n xs)"
  by (simp add: slice_to_def take_map)

lemma sorted_wrt_slice_to: "sorted_wrt R xs \<Longrightarrow> sorted_wrt R (slice_to n xs)"
  by (simp add: slice_to_def)


section \<open>The adjacency of the built graph\<close>

subsection \<open>The fields of the graph\<close>

lemma dataset_build_graph [simp]: "dataset (build_graph ds) = ds"
  by (simp add: build_graph_def Let_def)

lemma product_adjacency_build_graph:
  "product_adjacency (build_graph ds) =
     foldl normalize_row (initial_adjacency (product_ids ds)) (acc_cooccurrence (accumulate ds))"
  by (simp add: build_graph_def Let_def)

lemma customer_products_build_graph:
  "customer_products (build_graph ds) =
     map (\<lambda>(k, v). (k, set_of v)) (acc_customer_products (accumulate ds))"
  by (simp add: build_graph_def Let_def)

lemma product_customers_build_graph:
  "product_customers (build_graph ds) =
     map (\<lambda>(k, v). (k, set_of v)) (acc_product_customers (accumulate ds))"
  by (simp add: build_graph_def Let_def)

lemma product_cooccurrence_build_graph:
  "product_cooccurrence (build_graph ds) =
     map (\<lambda>(k, v). (k, dict_of v)) (acc_cooccurrence (accumulate ds))"
  by (simp add: build_graph_def Let_def)

lemma event_weights_build_graph:
  "event_weights (build_graph ds) = dict_of (acc_event_weights (accumulate ds))"
  by (simp add: build_graph_def Let_def)

subsection \<open>Rows of the adjacency\<close>

lemma normalize_row_entry:
  assumes "entry \<in> set (normalize_row adj (pid, nbrs))"
  shows "entry \<in> set adj \<or> (sum_list (map snd nbrs) \<noteq> 0 \<and> entry = (pid, scaled_row nbrs (sum_list (map snd nbrs))))"
  using assms set_update_cases [of entry pid "scaled_row nbrs (sum_list (map snd nbrs))" adj]
  by (auto simp: normalize_row_def Let_def split: if_splits)

lemma foldl_normalize_row_entry:
  "entry \<in> set (foldl normalize_row adj cooc) \<Longrightarrow>
   entry \<in> set adj \<or>
   (\<exists>pid nbrs. (pid, nbrs) \<in> set cooc \<and> sum_list (map snd nbrs) \<noteq> 0 \<and>
      entry = (pid, scaled_row nbrs (sum_list (map snd nbrs))))"
proof (induction cooc arbitrary: adj)
  case Nil
  then show ?case by simp
next
  case (Cons c cooc)
  obtain pid nbrs where c: "c = (pid, nbrs)" by (cases c)
  from Cons.prems have "entry \<in> set (foldl normalize_row (normalize_row adj (pid, nbrs)) cooc)"
    by (simp add: c)
  from Cons.IH [OF this] show ?case
    using normalize_row_entry [of entry adj pid nbrs] by (auto simp: c)
qed

lemma initial_adjacency_entry: "(p, row) \<in> set (initial_adjacency pids) \<Longrightarrow> row = []"
  using set_dict_of_subset [of "map (\<lambda>pid. (pid, [])) pids"]
  by (auto simp: initial_adjacency_def)

lemma adjacency_entry:
  assumes "(p, row) \<in> set (product_adjacency (build_graph ds))"
  shows "row = [] \<or>
    (\<exists>nbrs. (p, nbrs) \<in> set (acc_cooccurrence (accumulate ds)) \<and>
       sum_list (map snd nbrs) \<noteq> 0 \<and> row = scaled_row nbrs (sum_list (map snd nbrs)))"
  using foldl_normalize_row_entry [OF assms [unfolded product_adjacency_build_graph]]
    initial_adjacency_entry [of p row]
  by auto

lemma sum_list_divide:
  "sum_list (map (\<lambda>x. real (f x) / t) xs) = real (sum_list (map f xs)) / t"
  by (induction xs) (simp_all add: add_divide_distrib)

lemma sum_scaled_row:
  "sum_list (map snd nbrs) \<noteq> 0 \<Longrightarrow>
   sum_list (map snd (scaled_row nbrs (sum_list (map snd nbrs)))) = 1"
proof -
  assume nz: "sum_list (map snd nbrs) \<noteq> 0"
  have "map snd (scaled_row nbrs (sum_list (map snd nbrs))) = map (\<lambda>x. real (snd x) / real (sum_list (map snd nbrs))) nbrs"
    by (simp add: scaled_row_def split_beta)
  then show ?thesis using nz by (simp add: sum_list_divide)
qed

text \<open>
  C7: in the graph built from any dataset, every non-empty row of
  \<^verbatim>\<open>product_adjacency\<close> has values that sum to 1 (exactly, in real arithmetic, hence
  within 1e-9).
\<close>

theorem adjacency_row_sums_to_one:
  assumes "map_of (product_adjacency (build_graph ds)) p = Some row" and "row \<noteq> []"
  shows "sum_list (map snd row) = 1 \<and> \<bar>sum_list (map snd row) - 1\<bar> \<le> 1 / 10 ^ 9"
proof -
  from assms(1) have "(p, row) \<in> set (product_adjacency (build_graph ds))"
    by (rule map_of_SomeD)
  from adjacency_entry [OF this] assms(2) have "sum_list (map snd row) = 1"
    using sum_scaled_row by blast
  then show ?thesis by simp
qed

lemma reference_adjacency:
  "product_adjacency (build_graph load_dataset) =
     [(''P1'', [(''P2'', 1)]), (''P2'', [(''P1'', 1 / 2), (''P4'', 1 / 2)]),
      (''P3'', []), (''P4'', [(''P2'', 1)])]"
  by code_simp

theorem adjacency_row_sums_to_one_witness:
  "map_of (product_adjacency (build_graph load_dataset)) ''P2''
     = Some [(''P1'', 1 / 2), (''P4'', 1 / 2)] \<and>
   sum_list (map snd [(''P1'', 1 / 2 :: real), (''P4'', 1 / 2)]) = 1 \<and>
   \<bar>sum_list (map snd [(''P1'', 1 / 2 :: real), (''P4'', 1 / 2)]) - 1\<bar> \<le> 1 / 10 ^ 9"
proof -
  have h: "map_of (product_adjacency (build_graph load_dataset)) ''P2''
     = Some [(''P1'', 1 / 2), (''P4'', 1 / 2)]"
    by (simp add: reference_adjacency)
  from adjacency_row_sums_to_one [OF h] h show ?thesis by simp
qed

section \<open>Fusion\<close>

lemma strategy_weight_pos:
  "get_default STRATEGY_WEIGHTS name 0 \<noteq> 0 \<Longrightarrow> 0 < get_default STRATEGY_WEIGHTS name 0"
  by (simp add: STRATEGY_WEIGHTS_def get_default_def split: if_splits)

lemma contributions_ok_Nil [simp]: "contributions_ok exclude []"
  by (simp add: contributions_ok_def)

lemma contributions_okD:
  "contributions_ok exclude combined \<Longrightarrow> (pid, cs) \<in> set combined \<Longrightarrow>
   pid \<notin> set exclude \<and> cs \<noteq> [] \<and> (\<forall>v \<in> snd ` set cs. 0 < v)"
  unfolding contributions_ok_def by force

lemma contributions_ok_update:
  assumes "contributions_ok exclude combined" and "pid \<notin> set exclude"
    and "cs \<noteq> []" and "\<forall>v \<in> snd ` set cs. 0 < v"
  shows "contributions_ok exclude (AList.update pid cs combined)"
  unfolding contributions_ok_def
proof
  fix entry
  assume "entry \<in> set (AList.update pid cs combined)"
  then have "entry = (pid, cs) \<or> entry \<in> set combined"
    by (rule set_update_cases)
  with assms show "fst entry \<notin> set exclude \<and> snd entry \<noteq> [] \<and>
      (\<forall>v \<in> snd ` set (snd entry). 0 < v)"
    unfolding contributions_ok_def by auto
qed

lemma positive_update:
  assumes "\<forall>v \<in> snd ` set cs. 0 < (v::real)" and "0 < x"
  shows "\<forall>v \<in> snd ` set (AList.update name x cs). 0 < v"
proof
  fix v
  assume "v \<in> snd ` set (AList.update name x cs)"
  then obtain k where "(k, v) \<in> set (AList.update name x cs)" by force
  then have "(k, v) = (name, x) \<or> (k, v) \<in> set cs" by (rule set_update_cases)
  with assms show "0 < v" by force
qed

lemma contributions_ok_add_contribution:
  assumes ok: "contributions_ok exclude combined" and w: "0 < weight"
  shows "contributions_ok exclude (add_contribution name weight exclude combined entry)"
proof -
  obtain p val where entry: "entry = (p, val)" by (cases entry)
  show ?thesis
  proof (cases "p \<in> set exclude \<or> val \<le> 0")
    case True
    with ok entry show ?thesis by (simp add: add_contribution_def)
  next
    case False
    let ?old = "get_default combined p []"
    have "?old = [] \<or> (p, ?old) \<in> set combined" by (rule get_default_in)
    then have old: "\<forall>v \<in> snd ` set ?old. 0 < v"
      using contributions_okD [OF ok, of p ?old] by auto
    from False w have "0 < val * weight" by simp
    from positive_update [OF old this]
    have "contributions_ok exclude (AList.update p (AList.update name (val * weight) ?old) combined)"
      using False by (intro contributions_ok_update [OF ok]) simp_all
    with False entry show ?thesis by (simp add: add_contribution_def)
  qed
qed

lemma contributions_ok_fold_contribution:
  "contributions_ok exclude combined \<Longrightarrow> 0 < weight \<Longrightarrow>
   contributions_ok exclude (foldl (add_contribution name weight exclude) combined scores)"
  by (induction scores arbitrary: combined) (simp_all add: contributions_ok_add_contribution)

lemma contributions_ok_add_strategy:
  assumes "contributions_ok exclude combined"
  shows "contributions_ok exclude (add_strategy exclude combined entry)"
proof -
  obtain name scores where entry: "entry = (name, scores)" by (cases entry)
  show ?thesis
  proof (cases "get_default STRATEGY_WEIGHTS name 0 = 0")
    case True
    with assms entry show ?thesis by (simp add: add_strategy_def)
  next
    case False
    then have "0 < get_default STRATEGY_WEIGHTS name 0" by (rule strategy_weight_pos)
    from contributions_ok_fold_contribution [OF assms this] False entry
    show ?thesis by (simp add: add_strategy_def Let_def)
  qed
qed

lemma contributions_ok_combined:
  "contributions_ok exclude combined \<Longrightarrow>
   contributions_ok exclude (foldl (add_strategy exclude) combined strategies)"
  by (induction strategies arbitrary: combined) (simp_all add: contributions_ok_add_strategy)

lemma combined_entry:
  assumes "(pid, cs) \<in> set (foldl (add_strategy exclude) [] strategies)"
  shows "pid \<notin> set exclude \<and> cs \<noteq> [] \<and> (\<forall>v \<in> snd ` set cs. 0 < v)"
  using contributions_okD [OF contributions_ok_combined [OF contributions_ok_Nil] assms] .

lemma combine_strategies_member:
  assumes "r \<in> set (combine_strategies strategies exclude)"
  shows "rec_product_id r \<notin> set exclude \<and> contributions r \<noteq> [] \<and>
         (\<forall>v \<in> snd ` set (contributions r). 0 < v) \<and>
         score r = sum_list (map snd (contributions r))"
proof -
  from assms obtain pid cs where
    mem: "(pid, cs) \<in> set (foldl (add_strategy exclude) [] strategies)"
    and r: "r = to_recommendation (pid, cs)"
    by (auto simp: combine_strategies_def Let_def)
  from combined_entry [OF mem] r show ?thesis
    by (simp add: to_recommendation_def)
qed

lemma sum_list_pos_real:
  "xs \<noteq> [] \<Longrightarrow> (\<forall>x \<in> set xs. 0 < (x::real)) \<Longrightarrow> 0 < sum_list xs"
  by (induction xs) (auto intro: add_pos_nonneg sum_list_nonneg less_imp_le)

lemma combine_strategies_score_pos:
  assumes "r \<in> set (combine_strategies strategies exclude)"
  shows "0 < score r"
  using combine_strategies_member [OF assms] sum_list_pos_real [of "map snd (contributions r)"]
  by auto

lemma ranked_by_key:
  "sorted (map (\<lambda>r. (- f r, g r)) xs) \<Longrightarrow>
   sorted_wrt (\<lambda>a b. f b < f a \<or> (f a = f b \<and> g a \<le> g b)) xs"
  for f :: "'a \<Rightarrow> real" and g :: "'a \<Rightarrow> string"
  unfolding sorted_map by (erule sorted_wrt_mono_rel [rotated]) auto

lemma combine_strategies_ranked:
  "sorted_wrt (\<lambda>a b. score b < score a \<or> (score a = score b \<and> rec_product_id a \<le> rec_product_id b))
     (combine_strategies strategies exclude)"
  by (rule ranked_by_key) (simp add: combine_strategies_def Let_def)

lemma top_items_ranked:
  "sorted_wrt (\<lambda>a b. snd b < snd a \<or> (snd a = snd b \<and> fst a \<le> fst b))
     (top_items scores top_n exclude)"
  unfolding top_items_def Let_def
  by (rule sorted_wrt_slice_to, rule ranked_by_key) simp

lemma fallback_ranked:
  "sorted_wrt (\<lambda>a b. score b < score a \<or> (score a = score b \<and> rec_product_id a \<le> rec_product_id b))
     (fallback_top_pagerank e top_n)"
  unfolding fallback_top_pagerank_def sorted_wrt_map
  by (rule sorted_wrt_mono_rel [OF _ top_items_ranked]) (auto simp: split_beta)

section \<open>The PageRank iteration\<close>

subsection \<open>Reads and stores that cannot fail\<close>

lemma sequence_map_Inr:
  "(\<And>x. x \<in> set xs \<Longrightarrow> f x = Inr (g x)) \<Longrightarrow> sequence (map f xs) = Inr (map g xs)"
  by (induction xs) simp_all

lemma getitem_key: "k \<in> fst ` set d \<Longrightarrow> getitem d k = Inr (get_default d k dflt)"
proof -
  assume "k \<in> fst ` set d"
  then obtain v where "map_of d k = Some v"
    by (metis map_of_eq_None_iff not_Some_eq)
  then show ?thesis by (simp add: getitem_def get_default_def)
qed

lemma keys_update_present:
  "k \<in> fst ` set d \<Longrightarrow> map fst (AList.update k v d) = map fst d"
  by (simp add: update_keys)

lemma sum_update_add:
  "k \<in> fst ` set d \<Longrightarrow>
   sum_list (map snd (AList.update k (get_default d k 0 + x) d)) = sum_list (map snd d) + (x::real)"
proof (induction d)
  case Nil
  then show ?case by simp
next
  case (Cons p d)
  show ?case
  proof (cases "fst p = k")
    case True
    then show ?thesis by (cases p) (simp add: get_default_def)
  next
    case False
    with Cons.prems have "k \<in> fst ` set d" by auto
    from Cons.IH [OF this] False show ?thesis
      by (cases p) (simp add: get_default_def)
  qed
qed

lemma values_update_pos:
  assumes "\<forall>v \<in> snd ` set d. 0 < (v::real)" and "0 \<le> x" and "k \<in> fst ` set d"
  shows "\<forall>v \<in> snd ` set (AList.update k (get_default d k 0 + x) d). 0 < v"
proof -
  from assms(3) have "get_default d k 0 \<in> snd ` set d"
    using get_default_cases [of d k 0] by (force simp: map_of_eq_None_iff)
  with assms(1) have "0 < get_default d k 0" by blast
  with assms(2) have "0 < get_default d k 0 + x" by linarith
  with assms(1) show ?thesis by (rule positive_update)
qed

lemma get_default_keys_map:
  "distinct (map fst d) \<Longrightarrow> map (\<lambda>k. get_default d k dflt) (map fst d) = map snd d"
proof (induction d)
  case Nil
  then show ?case by simp
next
  case (Cons p d)
  obtain k v where p: "p = (k, v)" by (cases p)
  from Cons.prems p have k: "k \<notin> fst ` set d" and dist: "distinct (map fst d)" by auto
  have "map (\<lambda>k'. get_default ((k, v) # d) k' dflt) (map fst d)
        = map (\<lambda>k'. get_default d k' dflt) (map fst d)"
    using k by (intro map_cong) (auto simp: get_default_def)
  with Cons.IH [OF dist] show ?case by (simp add: p get_default_def)
qed

subsection \<open>One propagation step\<close>

lemma push_rank_ok:
  assumes "neighbor \<in> fst ` set new" and "pid \<in> fst ` set ranks"
  shows "push_rank d ranks pid new (neighbor, w) =
     Inr (AList.update neighbor (get_default new neighbor 0 + d * get_default ranks pid 0 * w) new)"
  using getitem_key [OF assms(1), of 0] getitem_key [OF assms(2), of 0]
  by (simp add: push_rank_def)

lemma fold_push_rank:
  assumes "pid \<in> fst ` set ranks"
  shows "\<forall>edge \<in> set row. fst edge \<in> fst ` set new \<Longrightarrow>
    \<exists>new'. fold_err (push_rank d ranks pid) new row = Inr new' \<and>
       map fst new' = map fst new \<and>
       sum_list (map snd new') =
         sum_list (map snd new) + d * get_default ranks pid 0 * sum_list (map snd row)"
proof (induction row arbitrary: new)
  case Nil
  then show ?case by simp
next
  case (Cons edge row)
  obtain n w where edge: "edge = (n, w)" by (cases edge)
  let ?new1 = "AList.update n (get_default new n 0 + d * get_default ranks pid 0 * w) new"
  from Cons.prems edge have n: "n \<in> fst ` set new" by simp
  have step: "push_rank d ranks pid new edge = Inr ?new1"
    unfolding edge by (rule push_rank_ok [OF n assms])
  have keys1: "map fst ?new1 = map fst new" by (rule keys_update_present [OF n])
  have sum1: "sum_list (map snd ?new1) = sum_list (map snd new) + d * get_default ranks pid 0 * w"
    by (rule sum_update_add [OF n])
  from keys1 have "fst ` set ?new1 = fst ` set new"
    by (metis list.set_map)
  with Cons.prems have "\<forall>edge \<in> set row. fst edge \<in> fst ` set ?new1" by simp
  from Cons.IH [OF this] obtain new' where
    new': "fold_err (push_rank d ranks pid) ?new1 row = Inr new'"
      "map fst new' = map fst ?new1"
      "sum_list (map snd new') =
         sum_list (map snd ?new1) + d * get_default ranks pid 0 * sum_list (map snd row)"
    by blast
  show ?case
  proof (intro exI conjI)
    show "fold_err (push_rank d ranks pid) new (edge # row) = Inr new'"
      using step new'(1) by simp
    show "map fst new' = map fst new" using new'(2) keys1 by simp
    show "sum_list (map snd new') =
         sum_list (map snd new) + d * get_default ranks pid 0 * sum_list (map snd (edge # row))"
      using new'(3) sum1 by (simp add: edge algebra_simps)
  qed
qed

lemma propagate_ok:
  assumes "wf_adjacency (product_adjacency (graph e))"
    and "fst ` set new = fst ` set (product_adjacency (graph e))"
    and "pid \<in> fst ` set ranks"
  shows "\<exists>new'. propagate e ranks new pid = Inr new' \<and> map fst new' = map fst new \<and>
       sum_list (map snd new') = sum_list (map snd new) + outflow e ranks pid"
proof -
  let ?row = "get_default (product_adjacency (graph e)) pid []"
  show ?thesis
  proof (cases "?row = []")
    case True
    then show ?thesis by (simp add: propagate_def outflow_def)
  next
    case False
    have "?row = [] \<or> (pid, ?row) \<in> set (product_adjacency (graph e))"
      by (rule get_default_in)
    with False have "(pid, ?row) \<in> set (product_adjacency (graph e))" by simp
    with assms(1) have "\<forall>edge \<in> set ?row. fst edge \<in> fst ` set (product_adjacency (graph e))"
      unfolding wf_adjacency_def by force
    with assms(2) have "\<forall>edge \<in> set ?row. fst edge \<in> fst ` set new" by simp
    from fold_push_rank [OF assms(3) this, of "damping e"] False
    show ?thesis by (simp add: propagate_def outflow_def Let_def)
  qed
qed

lemma fold_propagate:
  assumes "wf_adjacency (product_adjacency (graph e))"
    and "set ps \<subseteq> fst ` set ranks"
  shows "fst ` set new = fst ` set (product_adjacency (graph e)) \<Longrightarrow>
    \<exists>new'. fold_err (propagate e ranks) new ps = Inr new' \<and> map fst new' = map fst new \<and>
       sum_list (map snd new') = sum_list (map snd new) + sum_list (map (outflow e ranks) ps)"
  using assms(2)
proof (induction ps arbitrary: new)
  case Nil
  then show ?case by simp
next
  case (Cons p ps)
  from Cons.prems have p: "p \<in> fst ` set ranks" by simp
  from propagate_ok [OF assms(1) Cons.prems(1) p] obtain new1 where
    new1: "propagate e ranks new p = Inr new1" "map fst new1 = map fst new"
      "sum_list (map snd new1) = sum_list (map snd new) + outflow e ranks p"
    by blast
  from new1(2) Cons.prems(1) have "fst ` set new1 = fst ` set (product_adjacency (graph e))"
    by (metis list.set_map)
  moreover from Cons.prems have "set ps \<subseteq> fst ` set ranks" by simp
  ultimately obtain new' where
    new': "fold_err (propagate e ranks) new1 ps = Inr new'" "map fst new' = map fst new1"
      "sum_list (map snd new') = sum_list (map snd new1) + sum_list (map (outflow e ranks) ps)"
    using Cons.IH by blast
  show ?case
  proof (intro exI conjI)
    show "fold_err (propagate e ranks) new (p # ps) = Inr new'"
      using new1(1) new'(1) by simp
    show "map fst new' = map fst new" using new1(2) new'(2) by simp
    show "sum_list (map snd new') =
        sum_list (map snd new) + sum_list (map (outflow e ranks) (p # ps))"
      using new1(3) new'(3) by simp
  qed
qed

lemma fold_add_leak:
  "set ps \<subseteq> fst ` set new \<Longrightarrow>
    \<exists>new'. fold_err (add_leak leak) new ps = Inr new' \<and> map fst new' = map fst new \<and>
       sum_list (map snd new') = sum_list (map snd new) + real (length ps) * leak"
proof (induction ps arbitrary: new)
  case Nil
  then show ?case by simp
next
  case (Cons p ps)
  let ?new1 = "AList.update p (get_default new p 0 + leak) new"
  from Cons.prems have p: "p \<in> fst ` set new" by simp
  have step: "add_leak leak new p = Inr ?new1"
    using getitem_key [OF p, of 0] by (simp add: add_leak_def)
  have keys1: "map fst ?new1 = map fst new" by (rule keys_update_present [OF p])
  have sum1: "sum_list (map snd ?new1) = sum_list (map snd new) + leak"
    by (rule sum_update_add [OF p])
  from keys1 have "fst ` set ?new1 = fst ` set new" by (metis list.set_map)
  with Cons.prems have "set ps \<subseteq> fst ` set ?new1" by simp
  from Cons.IH [OF this] obtain new' where
    new': "fold_err (add_leak leak) ?new1 ps = Inr new'" "map fst new' = map fst ?new1"
      "sum_list (map snd new') = sum_list (map snd ?new1) + real (length ps) * leak"
    by blast
  show ?case
  proof (intro exI conjI)
    show "fold_err (add_leak leak) new (p # ps) = Inr new'" using step new'(1) by simp
    show "map fst new' = map fst new" using new'(2) keys1 by simp
    show "sum_list (map snd new') = sum_list (map snd new) + real (length (p # ps)) * leak"
      using new'(3) sum1 by (simp add: algebra_simps)
  qed
qed

lemma sequence_rank_change:
  assumes "set ps \<subseteq> fst ` set new" and "set ps \<subseteq> fst ` set ranks"
  shows "sequence (map (rank_change new ranks) ps) =
     Inr (map (\<lambda>pid. \<bar>get_default new pid 0 - get_default ranks pid 0\<bar>) ps)"
proof (rule sequence_map_Inr)
  fix pid assume "pid \<in> set ps"
  with assms have "pid \<in> fst ` set new" "pid \<in> fst ` set ranks" by auto
  then show "rank_change new ranks pid = Inr \<bar>get_default new pid 0 - get_default ranks pid 0\<bar>"
    using getitem_key [of pid new 0] getitem_key [of pid ranks 0]
    by (simp add: rank_change_def)
qed

subsection \<open>Mass conservation\<close>

lemma get_default_tabulate:
  "k \<in> set ks \<Longrightarrow> get_default (map (\<lambda>k. (k, f k)) ks) k dflt = f k"
proof -
  assume "k \<in> set ks"
  then have "map_of (map (\<lambda>k. (k, f k)) ks) k = Some (f k)"
    by (induction ks) auto
  then show ?thesis by (simp add: get_default_def)
qed

lemma fst_tabulate [simp]: "fst \<circ> (\<lambda>k. (k, f k)) = (\<lambda>k. k)"
  by (simp add: fun_eq_iff)

lemma snd_tabulate [simp]: "snd \<circ> (\<lambda>k. (k, f k)) = f"
  by (simp add: fun_eq_iff)

lemma dict_of_tabulate:
  "distinct ks \<Longrightarrow> dict_of (map (\<lambda>k. (k, f k)) ks) = map (\<lambda>k. (k, f k)) ks"
  by (rule dict_of_distinct) simp

lemma sum_list_divide_real:
  "sum_list (map (\<lambda>x. f x / t) xs) = sum_list (map f xs) / t"
  for t :: real
  by (induction xs) (simp_all add: add_divide_distrib)

lemma sum_list_split_filter:
  "sum_list (map (\<lambda>x. if P x then 0 else c * f x) xs) + c * sum_list (map f (filter P xs))
     = c * sum_list (map f xs)"
  for c :: real
  by (induction xs) (simp_all add: algebra_simps)

lemma engine_ok_distinct: "engine_ok e \<Longrightarrow> distinct (engine_product_ids e)"
  by (simp add: engine_ok_def wf_adjacency_def)

lemma outflow_wf:
  assumes "engine_ok e"
  shows "outflow e ranks pid =
     (if get_default (product_adjacency (graph e)) pid [] = [] then 0
      else damping e * get_default ranks pid 0)"
proof -
  let ?row = "get_default (product_adjacency (graph e)) pid []"
  show ?thesis
  proof (cases "?row = []")
    case True
    then show ?thesis by (simp add: outflow_def)
  next
    case False
    have "?row = [] \<or> (pid, ?row) \<in> set (product_adjacency (graph e))"
      by (rule get_default_in)
    with False have "(pid, ?row) \<in> set (product_adjacency (graph e))" by simp
    with assms False have "sum_list (map snd ?row) = 1"
      unfolding engine_ok_def wf_adjacency_def by force
    with False show ?thesis by (simp add: outflow_def Let_def)
  qed
qed

lemma pagerank_iteration_mass:
  assumes ok: "engine_ok e" and ne: "engine_product_ids e \<noteq> []"
    and ranks: "rank_vector e ranks"
    and pers: "sum_list (map (\<lambda>pid. get_default personalization pid 0) (engine_product_ids e)) = 1"
  shows "\<exists>new delta. pagerank_iteration e personalization ranks = Inr (new, delta) \<and>
           rank_vector e new"
proof -
  let ?pids = "engine_product_ids e"
  let ?adj = "product_adjacency (graph e)"
  let ?d = "damping e"
  let ?sink = "\<lambda>pid. get_default ?adj pid [] = []"
  let ?r = "\<lambda>pid. get_default ranks pid 0"
  let ?new0 = "map (\<lambda>pid. (pid, (1 - ?d) * get_default personalization pid 0)) ?pids"
  let ?sinks = "map ?r (filter ?sink ?pids)"
  let ?leak = "?d * sum_list ?sinks / real (length ?pids)"
  have dist: "distinct ?pids" by (rule engine_ok_distinct [OF ok])
  have keys_ranks: "map fst ranks = ?pids" using ranks by (simp add: rank_vector_def)
  then have kr: "fst ` set ranks = set ?pids" by (metis list.set_map)
  have ka: "fst ` set ?adj = set ?pids" using ok by (simp add: engine_ok_def)
  have new0: "dict_of ?new0 = ?new0" by (rule dict_of_tabulate [OF dist])
  have sum0: "sum_list (map snd ?new0) = 1 - ?d"
    using pers by (simp add: sum_list_const_mult)
  have sinks: "sequence (map (getitem ranks) (filter ?sink ?pids)) = Inr ?sinks"
    by (rule sequence_map_Inr) (simp add: getitem_key kr)
  have "fst ` set ?new0 = fst ` set ?adj" using ka by (simp add: image_comp comp_def)
  moreover have "wf_adjacency ?adj" using ok by (simp add: engine_ok_def)
  moreover have "set ?pids \<subseteq> fst ` set ranks" using kr by simp
  ultimately obtain new1 where
    new1: "fold_err (propagate e ranks) ?new0 ?pids = Inr new1" "map fst new1 = map fst ?new0"
      "sum_list (map snd new1) = sum_list (map snd ?new0) + sum_list (map (outflow e ranks) ?pids)"
    using fold_propagate [of e ?pids ranks ?new0] by blast
  have keys1: "map fst new1 = ?pids" using new1(2) by simp
  then have k1: "fst ` set new1 = set ?pids" by (metis list.set_map)
  obtain new2 where
    new2: "(if ?leak \<noteq> 0 then fold_err (add_leak ?leak) new1 ?pids else Inr new1) = Inr new2"
      "map fst new2 = ?pids"
      "sum_list (map snd new2) = sum_list (map snd new1) + real (length ?pids) * ?leak"
  proof (cases "?leak = 0")
    case True
    with keys1 that [of new1] show ?thesis by simp
  next
    case False
    from fold_add_leak [of ?pids new1 ?leak] k1 obtain new' where
      "fold_err (add_leak ?leak) new1 ?pids = Inr new'" "map fst new' = map fst new1"
      "sum_list (map snd new') = sum_list (map snd new1) + real (length ?pids) * ?leak"
      by auto
    with False keys1 that [of new'] show ?thesis by simp
  qed
  from new2(2) have k2: "fst ` set new2 = set ?pids" by (metis list.set_map)
  have changes: "sequence (map (rank_change new2 ranks) ?pids) =
      Inr (map (\<lambda>pid. \<bar>get_default new2 pid 0 - get_default ranks pid 0\<bar>) ?pids)"
    by (rule sequence_rank_change) (simp_all add: k2 kr)
  have run: "pagerank_iteration e personalization ranks =
      Inr (new2, sum_list (map (\<lambda>pid. \<bar>get_default new2 pid 0 - get_default ranks pid 0\<bar>) ?pids))"
    unfolding pagerank_iteration_def Let_def new0
    using sinks new1(1) new2(1) changes by simp
  have out: "map (outflow e ranks) ?pids = map (\<lambda>pid. if ?sink pid then 0 else ?d * ?r pid) ?pids"
    by (simp add: outflow_wf [OF ok])
  have len: "real (length ?pids) * ?leak = ?d * sum_list ?sinks"
    using ne by simp
  have total: "sum_list (map ?r ?pids) = 1"
    using get_default_keys_map [of ranks 0] dist keys_ranks ranks
    by (simp add: rank_vector_def)
  have "sum_list (map snd new2) =
      1 - ?d + (sum_list (map (\<lambda>pid. if ?sink pid then 0 else ?d * ?r pid) ?pids)
                + ?d * sum_list (map ?r (filter ?sink ?pids)))"
    using new2(3) new1(3) sum0 out len by simp
  also have "\<dots> = 1 - ?d + ?d * sum_list (map ?r ?pids)"
    by (simp only: sum_list_split_filter)
  also have "\<dots> = 1" using total by simp
  finally have "rank_vector e new2" using new2(2) by (simp add: rank_vector_def)
  with run show ?thesis by blast
qed

lemma pagerank_loop_mass:
  assumes ok: "engine_ok e" and ne: "engine_product_ids e \<noteq> []"
    and pers: "sum_list (map (\<lambda>pid. get_default personalization pid 0) (engine_product_ids e)) = 1"
  shows "rank_vector e ranks \<Longrightarrow>
    \<exists>ranks'. pagerank_loop e personalization n ranks = Inr ranks' \<and> rank_vector e ranks'"
proof (induction n arbitrary: ranks)
  case 0
  then show ?case by simp
next
  case (Suc n)
  from pagerank_iteration_mass [OF ok ne Suc.prems pers] obtain new delta where
    it: "pagerank_iteration e personalization ranks = Inr (new, delta)" and new: "rank_vector e new"
    by blast
  show ?case
  proof (cases "delta < tolerance e")
    case True
    with it new show ?thesis by simp
  next
    case False
    with it Suc.IH [OF new] show ?thesis by simp
  qed
qed

lemma uniform_personalization_eq:
  assumes "distinct (engine_product_ids e)" and "engine_product_ids e \<noteq> []"
  shows "uniform_personalization e =
     map (\<lambda>pid. (pid, 1 / real (length (engine_product_ids e)))) (engine_product_ids e)"
  using assms by (simp add: uniform_personalization_def Let_def dict_of_tabulate)

lemma sum_uniform:
  assumes "distinct (engine_product_ids e)" and "engine_product_ids e \<noteq> []"
  shows "sum_list (map (\<lambda>pid. get_default (uniform_personalization e) pid 0)
           (engine_product_ids e)) = 1"
proof -
  let ?pids = "engine_product_ids e"
  have "map (\<lambda>pid. get_default (uniform_personalization e) pid 0) ?pids
        = map (\<lambda>pid. 1 / real (length ?pids)) ?pids"
    unfolding uniform_personalization_eq [OF assms]
    by (intro map_cong refl) (simp add: get_default_tabulate)
  then have "sum_list (map (\<lambda>pid. get_default (uniform_personalization e) pid 0) ?pids)
        = real (length ?pids) * (1 / real (length ?pids))"
    by (simp only: sum_list_triv)
  then show ?thesis using assms(2) by simp
qed

lemma sum_normalize_personalization:
  assumes "distinct (engine_product_ids e)" and "engine_product_ids e \<noteq> []"
  shows "sum_list (map (\<lambda>pid. get_default (normalize_personalization e vals) pid 0)
           (engine_product_ids e)) = 1"
proof -
  let ?pids = "engine_product_ids e"
  let ?total = "sum_list (map (\<lambda>pid. get_default vals pid 0) ?pids)"
  show ?thesis
  proof (cases "?total = 0")
    case True
    then show ?thesis using sum_uniform [OF assms] by (simp add: normalize_personalization_def)
  next
    case False
    have "map (\<lambda>pid. get_default (normalize_personalization e vals) pid 0) ?pids
        = map (\<lambda>pid. get_default vals pid 0 / ?total) ?pids"
      using False assms(1)
      by (intro map_cong refl)
         (simp add: normalize_personalization_def Let_def dict_of_tabulate get_default_tabulate)
    then have "sum_list (map (\<lambda>pid. get_default (normalize_personalization e vals) pid 0) ?pids)
        = sum_list (map (\<lambda>pid. get_default vals pid 0 / ?total) ?pids)"
      by (simp only:)
    also have "\<dots> = ?total / ?total"
      by (rule sum_list_divide_real)
    finally have "sum_list (map (\<lambda>pid. get_default (normalize_personalization e vals) pid 0) ?pids)
        = ?total / ?total" .
    with False show ?thesis by simp
  qed
qed

lemma run_pagerank_mass:
  assumes ok: "engine_ok e" and ne: "engine_product_ids e \<noteq> []"
  shows "\<exists>ranks. run_pagerank e personalization = Inr ranks \<and> rank_vector e ranks"
proof -
  let ?pids = "engine_product_ids e"
  let ?ranks0 = "map (\<lambda>pid. (pid, 1 / real (length ?pids))) ?pids"
  have dist: "distinct ?pids" by (rule engine_ok_distinct [OF ok])
  have "rank_vector e ?ranks0"
    using ne by (simp add: rank_vector_def sum_list_triv)
  from pagerank_loop_mass [OF ok ne sum_normalize_personalization [OF dist ne] this]
  show ?thesis using ne by (simp add: run_pagerank_def Let_def dict_of_tabulate [OF dist])
qed

section \<open>Well-formed graphs\<close>

subsection \<open>The co-occurrence counts\<close>

lemma edges_in_mono: "edges_in K cooc \<Longrightarrow> K \<subseteq> K' \<Longrightarrow> edges_in K' cooc"
  unfolding edges_in_def by blast

lemma edges_in_row:
  assumes "edges_in K cooc"
  shows "\<forall>edge \<in> set (get_default cooc l []). fst edge \<in> K \<and> 0 < snd edge"
proof -
  have "get_default cooc l [] = [] \<or> (l, get_default cooc l []) \<in> set cooc"
    by (rule get_default_in)
  with assms show ?thesis unfolding edges_in_def by force
qed

lemma edges_in_counter_incr:
  assumes ok: "edges_in K cooc" and r: "r \<in> K"
  shows "edges_in K (counter_incr l r cooc)"
  unfolding edges_in_def
proof
  let ?row = "get_default cooc l []"
  let ?row' = "AList.update r (get_default ?row r 0 + 1) ?row"
  fix entry
  assume "entry \<in> set (counter_incr l r cooc)"
  then have "entry \<in> set (AList.update l ?row' cooc)"
    by (simp add: counter_incr_def Let_def)
  then have "entry = (l, ?row') \<or> entry \<in> set cooc" by (rule set_update_cases)
  then show "snd entry \<noteq> [] \<and> (\<forall>edge \<in> set (snd entry). fst edge \<in> K \<and> 0 < snd edge)"
  proof
    assume entry: "entry = (l, ?row')"
    have "\<forall>edge \<in> set ?row'. fst edge \<in> K \<and> 0 < snd edge"
    proof
      fix edge assume "edge \<in> set ?row'"
      then have "edge = (r, get_default ?row r 0 + 1) \<or> edge \<in> set ?row"
        by (rule set_update_cases)
      with edges_in_row [OF ok, of l] r show "fst edge \<in> K \<and> 0 < snd edge" by auto
    qed
    with entry show ?thesis by simp
  next
    assume "entry \<in> set cooc"
    with ok show ?thesis unfolding edges_in_def by blast
  qed
qed

lemma keys_counter_incr: "fst ` set (counter_incr l r cooc) = insert l (fst ` set cooc)"
  by (simp add: counter_incr_def Let_def keys_update)

lemma distinct_counter_incr:
  "distinct (map fst cooc) \<Longrightarrow> distinct (map fst (counter_incr l r cooc))"
  by (simp add: counter_incr_def Let_def distinct_update)

lemma cooc_ok_add_pair:
  assumes "cooc_ok (acc_cooccurrence acc)"
  shows "cooc_ok (acc_cooccurrence (add_pair acc lr))"
proof -
  obtain l r where lr: "lr = (l, r)" by (cases lr)
  let ?c = "acc_cooccurrence acc"
  let ?K = "insert r (insert l (fst ` set ?c))"
  from assms have "edges_in ?K ?c"
    unfolding cooc_ok_def by (auto intro: edges_in_mono)
  then have "edges_in ?K (counter_incr l r ?c)" by (rule edges_in_counter_incr) simp
  then have "edges_in ?K (counter_incr r l (counter_incr l r ?c))"
    by (rule edges_in_counter_incr) simp
  moreover have "fst ` set (counter_incr r l (counter_incr l r ?c)) = ?K"
    by (simp add: keys_counter_incr)
  moreover have "distinct (map fst (counter_incr r l (counter_incr l r ?c)))"
    using assms by (simp add: cooc_ok_def distinct_counter_incr)
  ultimately show ?thesis by (simp add: cooc_ok_def add_pair_def lr)
qed

lemma cooccurrence_add_incidence [simp]:
  "acc_cooccurrence (add_incidence pid cid acc) = acc_cooccurrence acc"
  by (simp add: add_incidence_def)

lemma cooccurrence_fold_incidence [simp]:
  "acc_cooccurrence (foldl (\<lambda>a pid. add_incidence pid cid a) acc pids) = acc_cooccurrence acc"
  by (induction pids arbitrary: acc) simp_all

lemma cooc_ok_fold_pair:
  "cooc_ok (acc_cooccurrence acc) \<Longrightarrow> cooc_ok (acc_cooccurrence (foldl add_pair acc pairs))"
  by (induction pairs arbitrary: acc) (simp_all add: cooc_ok_add_pair)

lemma cooc_ok_process_order:
  "cooc_ok (acc_cooccurrence acc) \<Longrightarrow> cooc_ok (acc_cooccurrence (process_order acc ord))"
  by (simp add: process_order_def Let_def cooc_ok_fold_pair)

lemma cooccurrence_process_event [simp]:
  "acc_cooccurrence (process_event acc ev) = acc_cooccurrence acc"
  by (simp add: process_event_def Let_def)

lemma cooccurrence_fold_event [simp]:
  "acc_cooccurrence (foldl process_event acc evs) = acc_cooccurrence acc"
  by (induction evs arbitrary: acc) simp_all

lemma cooc_ok_fold_order:
  "cooc_ok (acc_cooccurrence acc) \<Longrightarrow> cooc_ok (acc_cooccurrence (foldl process_order acc ords))"
  by (induction ords arbitrary: acc) (simp_all add: cooc_ok_process_order)

lemma cooc_ok_accumulate: "cooc_ok (acc_cooccurrence (accumulate ds))"
  unfolding accumulate_def Let_def cooccurrence_fold_event
  by (rule cooc_ok_fold_order) (simp add: cooc_ok_def edges_in_def)

subsection \<open>The adjacency is well formed\<close>

lemma cooc_total_pos:
  assumes "cooc_ok cooc" and "(p, nbrs) \<in> set cooc"
  shows "sum_list (map snd nbrs) \<noteq> 0"
proof -
  from assms have "nbrs \<noteq> []" and "\<forall>edge \<in> set nbrs. 0 < snd edge"
    unfolding cooc_ok_def edges_in_def by force+
  then obtain edge where "edge \<in> set nbrs" "0 < snd edge"
    by (cases nbrs) auto
  then have "\<exists>n \<in> set (map snd nbrs). n \<noteq> 0" by force
  then show ?thesis by simp
qed

lemma keys_normalize_row:
  "fst ` set (normalize_row adj (pid, nbrs)) =
     (if sum_list (map snd nbrs) = 0 then fst ` set adj else insert pid (fst ` set adj))"
  by (simp add: normalize_row_def Let_def keys_update)

lemma keys_fold_normalize_row:
  "(\<And>p nbrs. (p, nbrs) \<in> set cooc \<Longrightarrow> sum_list (map snd nbrs) \<noteq> 0) \<Longrightarrow>
   fst ` set (foldl normalize_row adj cooc) = fst ` set adj \<union> fst ` set cooc"
proof (induction cooc arbitrary: adj)
  case Nil
  then show ?case by simp
next
  case (Cons c cooc)
  obtain pid nbrs where c: "c = (pid, nbrs)" by (cases c)
  from Cons.prems [of pid nbrs] c have nz: "sum_list (map snd nbrs) \<noteq> 0" by simp
  have "fst ` set (foldl normalize_row (normalize_row adj (pid, nbrs)) cooc)
        = fst ` set (normalize_row adj (pid, nbrs)) \<union> fst ` set cooc"
    by (rule Cons.IH) (use Cons.prems in auto)
  moreover have "fst ` set (normalize_row adj (pid, nbrs)) = insert pid (fst ` set adj)"
    using nz by (simp only: keys_normalize_row if_False)
  ultimately show ?case by (simp add: c)
qed

lemma distinct_normalize_row:
  "distinct (map fst adj) \<Longrightarrow> distinct (map fst (normalize_row adj entry))"
  by (cases entry) (simp add: normalize_row_def Let_def distinct_update)

lemma distinct_fold_normalize_row:
  "distinct (map fst adj) \<Longrightarrow> distinct (map fst (foldl normalize_row adj cooc))"
  by (induction cooc arbitrary: adj) (simp_all add: distinct_normalize_row)

lemma scaled_row_edge:
  "edge \<in> set (scaled_row nbrs n) \<Longrightarrow> fst edge \<in> fst ` set nbrs \<and> 0 \<le> snd edge"
  by (force simp: scaled_row_def)

theorem wf_adjacency_build_graph: "wf_adjacency (product_adjacency (build_graph ds))"
proof -
  let ?cooc = "acc_cooccurrence (accumulate ds)"
  let ?adj = "product_adjacency (build_graph ds)"
  have ok: "cooc_ok ?cooc" by (rule cooc_ok_accumulate)
  have keys: "fst ` set ?adj = fst ` set (initial_adjacency (product_ids ds)) \<union> fst ` set ?cooc"
    unfolding product_adjacency_build_graph
    by (rule keys_fold_normalize_row) (rule cooc_total_pos [OF ok])
  have dist: "distinct (map fst ?adj)"
    unfolding product_adjacency_build_graph
    by (rule distinct_fold_normalize_row) (simp add: initial_adjacency_def)
  have rows: "(\<forall>edge \<in> set (snd entry). fst edge \<in> fst ` set ?adj \<and> 0 \<le> snd edge) \<and>
         (snd entry = [] \<or> sum_list (map snd (snd entry)) = 1)"
    if "entry \<in> set ?adj" for entry
  proof -
    obtain p row where entry: "entry = (p, row)" by (cases entry)
    from adjacency_entry [of p row ds] that entry
    consider "row = []"
      | nbrs where "(p, nbrs) \<in> set ?cooc" "sum_list (map snd nbrs) \<noteq> 0"
          "row = scaled_row nbrs (sum_list (map snd nbrs))"
      by auto
    then show ?thesis
    proof cases
      case 1
      with entry show ?thesis by simp
    next
      case 2
      from ok 2(1) have "\<forall>edge \<in> set nbrs. fst edge \<in> fst ` set ?cooc"
        unfolding cooc_ok_def edges_in_def by force
      then have "fst ` set nbrs \<subseteq> fst ` set ?adj" using keys by auto
      with scaled_row_edge [of _ nbrs "sum_list (map snd nbrs)"] 2(3)
      have "\<forall>edge \<in> set row. fst edge \<in> fst ` set ?adj \<and> 0 \<le> snd edge" by blast
      moreover have "sum_list (map snd row) = 1"
        unfolding 2(3) by (rule sum_scaled_row [OF 2(2)])
      ultimately show ?thesis by (simp add: entry)
    qed
  qed
  show ?thesis unfolding wf_adjacency_def using dist rows by blast
qed

section \<open>The constructor\<close>

lemma uniform_personalization_cache [simp]:
  "uniform_personalization (e\<lparr>global_pagerank := gp\<rparr>) = uniform_personalization e"
  by (simp add: uniform_personalization_def)

lemma normalize_personalization_cache [simp]:
  "normalize_personalization (e\<lparr>global_pagerank := gp\<rparr>) vals = normalize_personalization e vals"
  by (simp add: normalize_personalization_def Let_def)

lemma propagate_cache [simp]:
  "propagate (e\<lparr>global_pagerank := gp\<rparr>) = propagate e"
  by (simp add: propagate_def fun_eq_iff Let_def)

lemma pagerank_iteration_cache [simp]:
  "pagerank_iteration (e\<lparr>global_pagerank := gp\<rparr>) p ranks = pagerank_iteration e p ranks"
  by (simp add: pagerank_iteration_def Let_def cong: sum.case_cong)

lemma pagerank_loop_cache [simp]:
  "pagerank_loop (e\<lparr>global_pagerank := gp\<rparr>) p n ranks = pagerank_loop e p n ranks"
  by (induction n arbitrary: ranks) (simp_all split: sum.split prod.split)

lemma run_pagerank_cache [simp]:
  "run_pagerank (e\<lparr>global_pagerank := gp\<rparr>) p = run_pagerank e p"
  by (simp add: run_pagerank_def Let_def)

lemma engine_init_fields:
  assumes "engine_init g d tol max_iter = Inr e"
  shows "graph e = g" and "damping e = d" and "tolerance e = tol"
    and "max_iterations e = max_iter"
    and "engine_product_ids e = map fst (product_adjacency g)"
    and "run_pagerank e (uniform_personalization e) = Inr (global_pagerank e)"
proof -
  define e0 where "e0 = \<lparr>graph = g, damping = d, tolerance = tol, max_iterations = max_iter,
      engine_product_ids = map fst (product_adjacency g), global_pagerank = []\<rparr>"
  from assms obtain ranks where
    r: "run_pagerank e0 (uniform_personalization e0) = Inr ranks"
    and e: "e = e0\<lparr>global_pagerank := ranks\<rparr>"
    unfolding engine_init_def Let_def e0_def [symmetric] by (auto split: sum.splits)
  show "graph e = g" and "damping e = d" and "tolerance e = tol"
    and "max_iterations e = max_iter"
    and "engine_product_ids e = map fst (product_adjacency g)"
    by (simp_all add: e e0_def)
  show "run_pagerank e (uniform_personalization e) = Inr (global_pagerank e)"
    by (simp add: e r)
qed

lemma engine_init_ok:
  assumes "engine_init g d tol max_iter = Inr e" and "wf_adjacency (product_adjacency g)"
  shows "engine_ok e"
  using engine_init_fields(1,5) [OF assms(1)] assms(2) by (simp add: engine_ok_def)

lemma engine_init_build_graph_ok:
  "engine_init (build_graph ds) d tol max_iter = Inr e \<Longrightarrow> engine_ok e"
  by (rule engine_init_ok [OF _ wf_adjacency_build_graph])

lemma run_pagerank_total:
  assumes "engine_ok e"
  shows "\<exists>ranks. run_pagerank e personalization = Inr ranks \<and>
           map fst ranks = engine_product_ids e"
proof (cases "engine_product_ids e = []")
  case True
  then show ?thesis by (simp add: run_pagerank_def)
next
  case False
  from run_pagerank_mass [OF assms False, of personalization]
  show ?thesis by (auto simp: rank_vector_def)
qed

lemma engine_init_total:
  assumes "wf_adjacency (product_adjacency g)"
  shows "\<exists>e. engine_init g d tol max_iter = Inr e"
proof -
  let ?e = "\<lparr>graph = g, damping = d, tolerance = tol, max_iterations = max_iter,
             engine_product_ids = map fst (product_adjacency g), global_pagerank = []\<rparr>"
  have "engine_ok ?e" using assms by (simp add: engine_ok_def)
  from run_pagerank_total [OF this, of "uniform_personalization ?e"]
  show ?thesis by (auto simp: engine_init_def Let_def)
qed

lemma default_engine_total: "\<exists>e. default_engine (build_graph ds) = Inr e"
  unfolding default_engine_def by (rule engine_init_total [OF wf_adjacency_build_graph])

lemma global_pagerank_keys:
  assumes "engine_init g d tol max_iter = Inr e" and "wf_adjacency (product_adjacency g)"
  shows "map fst (global_pagerank e) = engine_product_ids e"
  using run_pagerank_total [OF engine_init_ok [OF assms], of "uniform_personalization e"]
    engine_init_fields(6) [OF assms(1)]
  by simp

lemma personalized_pagerank_total:
  assumes "engine_ok e"
  shows "\<exists>ranks. personalized_pagerank e seeds = Inr ranks"
  using run_pagerank_total [OF assms]
  by (simp add: personalized_pagerank_def Let_def) blast

lemma reference_product_ids:
  "map fst (product_adjacency (build_graph load_dataset)) = [''P1'', ''P2'', ''P3'', ''P4'']"
  by (simp add: reference_adjacency)

section \<open>PageRank conserves mass\<close>

text \<open>
  C3: for the engine of any dataset's graph with a non-empty product set, and any
  personalization vector, \<^verbatim>\<open>_run_pagerank\<close> returns a rank for every product and the ranks
  sum to 1 (exactly, in real arithmetic, hence within 1e-6). Each iteration keeps the total:
  the base terms sum to \<open>1 - d\<close>, a product with neighbours passes on \<open>d\<close> times its rank
  because its row sums to 1, and the sinks' \<open>d\<close> times their rank is spread as the leak.
\<close>

theorem pagerank_sums_to_one:
  assumes "engine_init (build_graph ds) d tol max_iter = Inr e"
    and "engine_product_ids e \<noteq> []"
  shows "\<exists>ranks. run_pagerank e personalization = Inr ranks \<and>
           map fst ranks = engine_product_ids e \<and>
           sum_list (map snd ranks) = 1 \<and>
           \<bar>sum_list (map snd ranks) - 1\<bar> \<le> 1 / 10 ^ 6"
proof -
  have "engine_ok e" by (rule engine_init_build_graph_ok [OF assms(1)])
  from run_pagerank_mass [OF this assms(2), of personalization]
  show ?thesis by (auto simp: rank_vector_def)
qed

theorem pagerank_sums_to_one_witness:
  "\<exists>e ranks. default_engine (build_graph load_dataset) = Inr e \<and>
     engine_product_ids e = [''P1'', ''P2'', ''P3'', ''P4''] \<and>
     run_pagerank e [(''P1'', 1 / 3), (''P2'', 1 / 3), (''P4'', 1 / 3)] = Inr ranks \<and>
     map fst ranks = [''P1'', ''P2'', ''P3'', ''P4''] \<and>
     sum_list (map snd ranks) = 1"
proof -
  obtain e where e: "default_engine (build_graph load_dataset) = Inr e"
    using default_engine_total by blast
  then have init: "engine_init (build_graph load_dataset) (85 / 100) (1 / 10 ^ 6) 50 = Inr e"
    by (simp add: default_engine_def)
  have pids: "engine_product_ids e = [''P1'', ''P2'', ''P3'', ''P4'']"
    using engine_init_fields(5) [OF init] by (simp add: reference_product_ids)
  then have "engine_product_ids e \<noteq> []" by simp
  from pagerank_sums_to_one [OF init this,
      of "[(''P1'', 1 / 3), (''P2'', 1 / 3), (''P4'', 1 / 3)]"] e pids
  show ?thesis by auto
qed

section \<open>The ranking returned to a customer\<close>

lemma recommend_cases:
  assumes "recommend_for_customer e cid top_n = Inr recs"
  obtains (cold) "seed_products e cid = []" "recs = fallback_top_pagerank e top_n"
  | (fused) combined where "seed_products e cid \<noteq> []"
      "fused_ranking e (seed_products e cid)
         (set_union (purchased_products e cid) (interacted_products e cid)) = Inr combined"
      "recs = slice_to top_n combined"
  using assms unfolding recommend_for_customer_def Let_def
  by (auto split: sum.splits if_splits)

lemma fused_ranking_cases:
  assumes "fused_ranking e seeds exclude = Inr combined"
  obtains ppr where "personalized_pagerank e seeds = Inr ppr"
    "combined = combine_strategies
       [(''co_occurrence'', normalize_scores (co_occurrence_scores e seeds)),
        (''similarity'', normalize_scores (similarity_scores e seeds)),
        (''personalized_pagerank'', normalize_scores ppr)] exclude"
  using assms unfolding fused_ranking_def Let_def
  by (auto split: sum.splits)

lemma seed_products_subset:
  "set (seed_products e cid) \<subseteq> set (purchased_products e cid) \<union> set (interacted_products e cid)"
  by (simp add: seed_products_def)

lemma seed_products_Nil:
  "seed_products e cid = [] \<Longrightarrow> purchased_products e cid = [] \<and> interacted_products e cid = []"
  by (simp add: seed_products_def split: if_splits)

text \<open>
  C1: no product of the list returned by \<^verbatim>\<open>recommend_for_customer\<close> is in the customer's
  purchased set or interacted set, so no seed is recommended. (When the seed set is empty,
  both sets are empty and the statement holds trivially.)
\<close>

theorem seeds_never_recommended:
  assumes "recommend_for_customer e cid top_n = Inr recs" and "r \<in> set recs"
  shows "rec_product_id r \<notin> set (purchased_products e cid) \<and>
         rec_product_id r \<notin> set (interacted_products e cid) \<and>
         rec_product_id r \<notin> set (seed_products e cid)"
  using assms(1)
proof (cases rule: recommend_cases)
  case cold
  from seed_products_Nil [OF cold(1)] cold(1) show ?thesis by simp
next
  case (fused combined)
  have "set recs \<subseteq> set combined" unfolding fused(3) by (rule set_slice_to)
  with assms(2) have r: "r \<in> set combined" by (rule subsetD [rotated])
  from fused(2) obtain ppr where
    comb: "combined = combine_strategies
       [(''co_occurrence'', normalize_scores (co_occurrence_scores e (seed_products e cid))),
        (''similarity'', normalize_scores (similarity_scores e (seed_products e cid))),
        (''personalized_pagerank'', normalize_scores ppr)]
       (set_union (purchased_products e cid) (interacted_products e cid))"
    by (rule fused_ranking_cases)
  from r [unfolded comb] have "rec_product_id r \<notin>
      set (set_union (purchased_products e cid) (interacted_products e cid))"
    by (rule combine_strategies_member [THEN conjunct1])
  then have "rec_product_id r \<notin> set (purchased_products e cid) \<union> set (interacted_products e cid)"
    by simp
  with seed_products_subset [of e cid] show ?thesis by blast
qed

text \<open>
  C8: the list returned by \<^verbatim>\<open>recommend_for_customer\<close> is in descending order of score,
  and among equal scores in ascending order of product identifier (the order of the key
  \<^verbatim>\<open>(-score, product_id)\<close>). The function is a function of the engine, the customer and
  \<^verbatim>\<open>top_n\<close>, so equal arguments give equal lists.
\<close>

theorem recommendations_ranked:
  assumes "recommend_for_customer e cid top_n = Inr recs"
  shows "sorted (map (\<lambda>r. (- score r, rec_product_id r)) recs) \<and>
         sorted_wrt (\<lambda>a b. score b < score a \<or>
                       (score a = score b \<and> rec_product_id a \<le> rec_product_id b)) recs"
proof -
  have "sorted_wrt (\<lambda>a b. score b < score a \<or>
                       (score a = score b \<and> rec_product_id a \<le> rec_product_id b)) recs"
    using assms
  proof (cases rule: recommend_cases)
    case cold
    then show ?thesis by (simp add: fallback_ranked)
  next
    case (fused combined)
    from fused(2) have "sorted_wrt (\<lambda>a b. score b < score a \<or>
                       (score a = score b \<and> rec_product_id a \<le> rec_product_id b)) combined"
      by (rule fused_ranking_cases) (simp add: combine_strategies_ranked)
    then show ?thesis unfolding fused(3) by (rule sorted_wrt_slice_to)
  qed
  moreover from this have "sorted (map (\<lambda>r. (- score r, rec_product_id r)) recs)"
    unfolding sorted_map by (rule sorted_wrt_mono_rel [rotated]) auto
  ultimately show ?thesis by simp
qed

section \<open>Ranks stay positive when the damping is in \<open>[0, 1)\<close>\<close>

lemma getitem_Inr: "getitem d k = Inr v \<Longrightarrow> (k, v) \<in> set d"
  by (auto simp: getitem_def split: option.splits dest: map_of_SomeD)

lemma positive_valuesD: "positive_values d \<Longrightarrow> (k, v) \<in> set d \<Longrightarrow> 0 < v"
  unfolding positive_values_def by force

lemma positive_values_store:
  assumes "positive_values d" and "0 < x"
  shows "positive_values (AList.update k x d)"
  using positive_update [of d x k] assms by (simp add: positive_values_def)

lemma sequence_Inr: "sequence rs = Inr xs \<Longrightarrow> x \<in> set xs \<Longrightarrow> Inr x \<in> set rs"
proof (induction rs arbitrary: xs rule: sequence.induct)
  case 1
  then show ?case by simp
next
  case (2 e uu)
  then show ?case by simp
next
  case (3 y rs)
  then show ?case by (cases "sequence rs") auto
qed

lemma push_rank_pos:
  assumes "push_rank d ranks pid new edge = Inr new'"
    and "positive_values new" and "positive_values ranks" and "0 \<le> d" and "0 \<le> snd edge"
  shows "positive_values new'"
proof -
  obtain n w where edge: "edge = (n, w)" by (cases edge)
  from assms(1) obtain old r where
    old: "getitem new n = Inr old" and r: "getitem ranks pid = Inr r"
    and new': "new' = AList.update n (old + d * r * w) new"
    by (auto simp: push_rank_def edge split: sum.splits)
  from old assms(2) have "0 < old" by (auto dest: getitem_Inr positive_valuesD)
  moreover from r assms(3) have "0 < r" by (auto dest: getitem_Inr positive_valuesD)
  ultimately have "0 < old + d * r * w"
    using assms(4,5) edge by (simp add: add_pos_nonneg)
  with assms(2) show ?thesis unfolding new' by (rule positive_values_store)
qed

lemma fold_push_rank_pos:
  assumes "positive_values ranks" and "0 \<le> d"
  shows "fold_err (push_rank d ranks pid) new row = Inr new' \<Longrightarrow> positive_values new \<Longrightarrow>
    \<forall>edge \<in> set row. 0 \<le> snd edge \<Longrightarrow> positive_values new'"
proof (induction row arbitrary: new)
  case Nil
  then show ?case by simp
next
  case (Cons edge row)
  from Cons.prems(1) obtain new1 where
    step: "push_rank d ranks pid new edge = Inr new1"
    and rest: "fold_err (push_rank d ranks pid) new1 row = Inr new'"
    by (auto split: sum.splits)
  from Cons.prems(3) have "0 \<le> snd edge" by simp
  from push_rank_pos [OF step Cons.prems(2) assms this] have "positive_values new1" .
  from Cons.IH [OF rest this] Cons.prems(3) show ?case by simp
qed

lemma propagate_pos:
  assumes "wf_adjacency (product_adjacency (graph e))"
    and "positive_values ranks" and "0 \<le> damping e"
    and "propagate e ranks new pid = Inr new'" and "positive_values new"
  shows "positive_values new'"
proof -
  let ?row = "get_default (product_adjacency (graph e)) pid []"
  show ?thesis
  proof (cases "?row = []")
    case True
    with assms(4,5) show ?thesis by (simp add: propagate_def)
  next
    case False
    have "?row = [] \<or> (pid, ?row) \<in> set (product_adjacency (graph e))"
      by (rule get_default_in)
    with False have "(pid, ?row) \<in> set (product_adjacency (graph e))" by simp
    with assms(1) have w: "\<forall>edge \<in> set ?row. 0 \<le> snd edge"
      unfolding wf_adjacency_def by force
    from assms(4) False have "fold_err (push_rank (damping e) ranks pid) new ?row = Inr new'"
      by (simp add: propagate_def Let_def)
    from fold_push_rank_pos [OF assms(2,3) this assms(5) w] show ?thesis .
  qed
qed

lemma fold_propagate_pos:
  assumes "wf_adjacency (product_adjacency (graph e))"
    and "positive_values ranks" and "0 \<le> damping e"
  shows "fold_err (propagate e ranks) new ps = Inr new' \<Longrightarrow> positive_values new \<Longrightarrow>
    positive_values new'"
proof (induction ps arbitrary: new)
  case Nil
  then show ?case by simp
next
  case (Cons p ps)
  from Cons.prems(1) obtain new1 where
    step: "propagate e ranks new p = Inr new1"
    and rest: "fold_err (propagate e ranks) new1 ps = Inr new'"
    by (auto split: sum.splits)
  from propagate_pos [OF assms step Cons.prems(2)] have "positive_values new1" .
  from Cons.IH [OF rest this] show ?case .
qed

lemma fold_add_leak_pos:
  assumes "0 \<le> leak"
  shows "fold_err (add_leak leak) new ps = Inr new' \<Longrightarrow> positive_values new \<Longrightarrow>
    positive_values new'"
proof (induction ps arbitrary: new)
  case Nil
  then show ?case by simp
next
  case (Cons p ps)
  from Cons.prems(1) obtain new1 where
    step: "add_leak leak new p = Inr new1"
    and rest1: "fold_err (add_leak leak) new1 ps = Inr new'"
    by (auto split: sum.splits)
  from step obtain old where
    old: "getitem new p = Inr old" and new1: "new1 = AList.update p (old + leak) new"
    by (auto simp: add_leak_def split: sum.splits)
  from rest1 new1
  have rest: "fold_err (add_leak leak) (AList.update p (old + leak) new) ps = Inr new'"
    by simp
  from old Cons.prems(2) have "0 < old" by (auto dest: getitem_Inr positive_valuesD)
  with assms have "0 < old + leak" by simp
  with Cons.prems(2) have "positive_values (AList.update p (old + leak) new)"
    by (rule positive_values_store)
  from Cons.IH [OF rest this] show ?case .
qed

lemma pagerank_iteration_pos:
  assumes wf: "wf_adjacency (product_adjacency (graph e))"
    and d: "0 \<le> damping e" "damping e < 1"
    and pers: "\<forall>pid \<in> set (engine_product_ids e). 0 < get_default personalization pid 0"
    and ranks: "positive_values ranks"
    and run: "pagerank_iteration e personalization ranks = Inr (new, delta)"
  shows "positive_values new"
proof -
  let ?pids = "engine_product_ids e"
  let ?new0 = "dict_of (map (\<lambda>pid. (pid, (1 - damping e) * get_default personalization pid 0))
      ?pids)"
  let ?sink = "\<lambda>pid. get_default (product_adjacency (graph e)) pid [] = []"
  from run obtain sink_ranks new1 where
    sinks: "sequence (map (getitem ranks) (filter ?sink ?pids)) = Inr sink_ranks"
    and pr: "fold_err (propagate e ranks) ?new0 ?pids = Inr new1"
    and leak: "(if damping e * sum_list sink_ranks / real (length ?pids) \<noteq> 0
        then fold_err (add_leak (damping e * sum_list sink_ranks / real (length ?pids))) new1 ?pids
        else Inr new1) = Inr new"
    unfolding pagerank_iteration_def Let_def by (auto split: sum.splits)
  have "positive_values ?new0"
    unfolding positive_values_def
  proof
    fix v assume "v \<in> snd ` set ?new0"
    then obtain k where "(k, v) \<in> set ?new0" by force
    with set_dict_of_subset have
      "(k, v) \<in> set (map (\<lambda>pid. (pid, (1 - damping e) * get_default personalization pid 0)) ?pids)"
      by blast
    then obtain pid where "pid \<in> set ?pids"
      and "v = (1 - damping e) * get_default personalization pid 0" by auto
    with pers d(2) show "0 < v" by simp
  qed
  from fold_propagate_pos [OF wf ranks d(1) pr this] have p1: "positive_values new1" .
  have "0 \<le> x" if "x \<in> set sink_ranks" for x
  proof -
    from sequence_Inr [OF sinks that] obtain pid where "getitem ranks pid = Inr x" by auto
    with ranks show ?thesis by (auto dest: getitem_Inr positive_valuesD intro: less_imp_le)
  qed
  then have "0 \<le> sum_list sink_ranks" by (rule sum_list_nonneg)
  with d(1) have l: "0 \<le> damping e * sum_list sink_ranks / real (length ?pids)" by simp
  show ?thesis
  proof (cases "damping e * sum_list sink_ranks / real (length ?pids) = 0")
    case True
    with leak p1 show ?thesis by simp
  next
    case False
    with leak have "fold_err (add_leak (damping e * sum_list sink_ranks / real (length ?pids)))
        new1 ?pids = Inr new" by simp
    from fold_add_leak_pos [OF l this p1] show ?thesis .
  qed
qed

lemma pagerank_loop_pos:
  assumes wf: "wf_adjacency (product_adjacency (graph e))"
    and d: "0 \<le> damping e" "damping e < 1"
    and pers: "\<forall>pid \<in> set (engine_product_ids e). 0 < get_default personalization pid 0"
  shows "pagerank_loop e personalization n ranks = Inr ranks' \<Longrightarrow> positive_values ranks \<Longrightarrow>
    positive_values ranks'"
proof (induction n arbitrary: ranks)
  case 0
  then show ?case by simp
next
  case (Suc n)
  from Suc.prems(1) obtain new delta where
    it: "pagerank_iteration e personalization ranks = Inr (new, delta)"
    and rest: "(if delta < tolerance e then Inr new else pagerank_loop e personalization n new)
        = Inr ranks'"
    by (auto split: sum.splits)
  from pagerank_iteration_pos [OF wf d pers Suc.prems(2) it] have new: "positive_values new" .
  show ?case
  proof (cases "delta < tolerance e")
    case True
    with rest new show ?thesis by simp
  next
    case False
    with rest have "pagerank_loop e personalization n new = Inr ranks'" by simp
    from Suc.IH [OF this new] show ?thesis .
  qed
qed

lemma normalized_uniform_pos:
  assumes "distinct (engine_product_ids e)" and "pid \<in> set (engine_product_ids e)"
  shows "0 < get_default (normalize_personalization e (uniform_personalization e)) pid 0"
proof -
  let ?pids = "engine_product_ids e"
  from assms(2) have ne: "?pids \<noteq> []" by auto
  have u: "get_default (uniform_personalization e) p 0 = 1 / real (length ?pids)"
    if "p \<in> set ?pids" for p
    using that unfolding uniform_personalization_eq [OF assms(1) ne]
    by (simp add: get_default_tabulate)
  from u [OF assms(2)] ne have up: "0 < get_default (uniform_personalization e) pid 0" by simp
  have total: "sum_list (map (\<lambda>pid. get_default (uniform_personalization e) pid 0) ?pids) = 1"
    by (rule sum_uniform [OF assms(1) ne])
  have "normalize_personalization e (uniform_personalization e) =
      map (\<lambda>pid. (pid, get_default (uniform_personalization e) pid 0 / 1)) ?pids"
    using total assms(1) by (simp add: normalize_personalization_def Let_def dict_of_tabulate)
  then show ?thesis using assms(2) up by (simp add: get_default_tabulate)
qed

lemma global_pagerank_pos:
  assumes init: "engine_init (build_graph ds) d tol max_iter = Inr e"
    and d: "0 \<le> d" "d < 1"
  shows "positive_values (global_pagerank e)"
proof (cases "engine_product_ids e = []")
  case True
  with engine_init_fields(6) [OF init] show ?thesis
    by (simp add: run_pagerank_def positive_values_def)
next
  case False
  let ?pids = "engine_product_ids e"
  let ?ranks0 = "dict_of (map (\<lambda>pid. (pid, 1 / real (length ?pids))) ?pids)"
  have ok: "engine_ok e" by (rule engine_init_build_graph_ok [OF init])
  then have wf: "wf_adjacency (product_adjacency (graph e))" by (simp add: engine_ok_def)
  have dist: "distinct ?pids" by (rule engine_ok_distinct [OF ok])
  have dd: "0 \<le> damping e" "damping e < 1"
    using d engine_init_fields(2) [OF init] by simp_all
  have pers: "\<forall>pid \<in> set ?pids.
      0 < get_default (normalize_personalization e (uniform_personalization e)) pid 0"
    using normalized_uniform_pos [OF dist] by blast
  have loop: "pagerank_loop e (normalize_personalization e (uniform_personalization e))
      (nat (max_iterations e)) ?ranks0 = Inr (global_pagerank e)"
    using engine_init_fields(6) [OF init] False by (simp add: run_pagerank_def Let_def)
  have "positive_values ?ranks0"
    using False by (simp add: dict_of_tabulate [OF dist] positive_values_def)
  from pagerank_loop_pos [OF wf dd pers loop this] show ?thesis .
qed

section \<open>Customers without orders and events\<close>

lemma keys_dd_add: "fst ` set (dd_add k x d) = insert k (fst ` set d)"
  by (simp add: dd_add_def keys_update)

lemma customers_add_incidence:
  "fst ` set (acc_customer_products (add_incidence pid cid acc))
     = insert cid (fst ` set (acc_customer_products acc))"
  by (simp add: add_incidence_def keys_dd_add)

lemma event_weights_add_incidence [simp]:
  "acc_event_weights (add_incidence pid cid acc) = acc_event_weights acc"
  by (simp add: add_incidence_def)

lemma customers_add_pair [simp]:
  "acc_customer_products (add_pair acc lr) = acc_customer_products acc"
  "acc_event_weights (add_pair acc lr) = acc_event_weights acc"
  by (cases lr; simp add: add_pair_def)+

lemma customers_fold_pair [simp]:
  "acc_customer_products (foldl add_pair acc pairs) = acc_customer_products acc"
  "acc_event_weights (foldl add_pair acc pairs) = acc_event_weights acc"
  by (induction pairs arbitrary: acc) simp_all

lemma customers_fold_incidence:
  "fst ` set (acc_customer_products (foldl (\<lambda>a pid. add_incidence pid cid a) acc pids))
     \<subseteq> insert cid (fst ` set (acc_customer_products acc))"
proof (induction pids arbitrary: acc)
  case Nil
  then show ?case by auto
next
  case (Cons p pids)
  from Cons.IH [of "add_incidence p cid acc"] show ?case
    by (simp add: customers_add_incidence)
qed

lemma event_weights_fold_incidence [simp]:
  "acc_event_weights (foldl (\<lambda>a pid. add_incidence pid cid a) acc pids) = acc_event_weights acc"
  by (induction pids arbitrary: acc) simp_all

text \<open>No entry of the accumulators is about a customer outside \<open>S\<close>.\<close>

lemma process_order_customers:
  assumes "fst ` set (acc_customer_products acc) \<subseteq> S"
    and "fst ` fst ` set (acc_event_weights acc) \<subseteq> S"
    and "order_customer_id ord \<in> S"
  shows "fst ` set (acc_customer_products (process_order acc ord)) \<subseteq> S"
    and "fst ` fst ` set (acc_event_weights (process_order acc ord)) \<subseteq> S"
proof -
  have "fst ` set (acc_customer_products (process_order acc ord))
      \<subseteq> insert (order_customer_id ord) (fst ` set (acc_customer_products acc))"
    unfolding process_order_def Let_def customers_fold_pair
    by (rule customers_fold_incidence)
  also have "\<dots> \<subseteq> S" using assms(1,3) by simp
  finally show "fst ` set (acc_customer_products (process_order acc ord)) \<subseteq> S" .
  show "fst ` fst ` set (acc_event_weights (process_order acc ord)) \<subseteq> S"
    using assms(2) by (simp add: process_order_def Let_def)
qed

lemma process_event_customers:
  assumes "fst ` set (acc_customer_products acc) \<subseteq> S"
    and "fst ` fst ` set (acc_event_weights acc) \<subseteq> S"
    and "event_customer_id ev \<in> S"
  shows "fst ` set (acc_customer_products (process_event acc ev)) \<subseteq> S"
    and "fst ` fst ` set (acc_event_weights (process_event acc ev)) \<subseteq> S"
proof -
  have "fst ` set (acc_customer_products (process_event acc ev))
      = insert (event_customer_id ev) (fst ` set (acc_customer_products acc))"
    by (simp add: process_event_def Let_def customers_add_incidence)
  with assms(1,3) show "fst ` set (acc_customer_products (process_event acc ev)) \<subseteq> S"
    by simp
  have "fst ` set (acc_event_weights (process_event acc ev))
      = insert (event_customer_id ev, event_product_id ev) (fst ` set (acc_event_weights acc))"
    by (simp add: process_event_def Let_def keys_update)
  then have "fst ` fst ` set (acc_event_weights (process_event acc ev))
      = insert (event_customer_id ev) (fst ` fst ` set (acc_event_weights acc))"
    by (simp only: image_insert fst_conv)
  with assms(2,3) show "fst ` fst ` set (acc_event_weights (process_event acc ev)) \<subseteq> S"
    by simp
qed

lemma fold_order_customers:
  "fst ` set (acc_customer_products acc) \<subseteq> S \<Longrightarrow>
   fst ` fst ` set (acc_event_weights acc) \<subseteq> S \<Longrightarrow>
   order_customer_id ` set ords \<subseteq> S \<Longrightarrow>
   fst ` set (acc_customer_products (foldl process_order acc ords)) \<subseteq> S \<and>
   fst ` fst ` set (acc_event_weights (foldl process_order acc ords)) \<subseteq> S"
proof (induction ords arbitrary: acc)
  case Nil
  then show ?case by simp
next
  case (Cons ord ords)
  from Cons.prems have "order_customer_id ord \<in> S" by simp
  from process_order_customers [OF Cons.prems(1,2) this] Cons.prems(3)
  show ?case by (simp add: Cons.IH)
qed

lemma fold_event_customers:
  "fst ` set (acc_customer_products acc) \<subseteq> S \<Longrightarrow>
   fst ` fst ` set (acc_event_weights acc) \<subseteq> S \<Longrightarrow>
   event_customer_id ` set evs \<subseteq> S \<Longrightarrow>
   fst ` set (acc_customer_products (foldl process_event acc evs)) \<subseteq> S \<and>
   fst ` fst ` set (acc_event_weights (foldl process_event acc evs)) \<subseteq> S"
proof (induction evs arbitrary: acc)
  case Nil
  then show ?case by simp
next
  case (Cons ev evs)
  from Cons.prems have "event_customer_id ev \<in> S" by simp
  from process_event_customers [OF Cons.prems(1,2) this] Cons.prems(3)
  show ?case by (simp add: Cons.IH)
qed

lemma accumulate_customers:
  "fst ` set (acc_customer_products (accumulate ds))
     \<subseteq> order_customer_id ` set (map snd (orders ds)) \<union> event_customer_id ` set (events ds)"
  "fst ` fst ` set (acc_event_weights (accumulate ds))
     \<subseteq> order_customer_id ` set (map snd (orders ds)) \<union> event_customer_id ` set (events ds)"
proof -
  let ?S = "order_customer_id ` set (map snd (orders ds)) \<union> event_customer_id ` set (events ds)"
  let ?acc0 = "\<lparr>acc_cooccurrence = [], acc_product_customers = [],
                acc_customer_products = [], acc_event_weights = []\<rparr>"
  have "fst ` set (acc_customer_products (foldl process_order ?acc0 (map snd (orders ds)))) \<subseteq> ?S \<and>
        fst ` fst ` set (acc_event_weights (foldl process_order ?acc0 (map snd (orders ds)))) \<subseteq> ?S"
    by (rule fold_order_customers) auto
  then have "fst ` set (acc_customer_products (accumulate ds)) \<subseteq> ?S \<and>
        fst ` fst ` set (acc_event_weights (accumulate ds)) \<subseteq> ?S"
    unfolding accumulate_def Let_def
    by (intro fold_event_customers) auto
  then show "fst ` set (acc_customer_products (accumulate ds)) \<subseteq> ?S"
    and "fst ` fst ` set (acc_event_weights (accumulate ds)) \<subseteq> ?S"
    by simp_all
qed

lemma newcomer_has_no_seeds:
  assumes g: "graph e = build_graph ds"
    and no_orders: "\<forall>ord \<in> set (map snd (orders ds)). order_customer_id ord \<noteq> cid"
    and no_events: "\<forall>ev \<in> set (events ds). event_customer_id ev \<noteq> cid"
  shows "purchased_products e cid = []" and "interacted_products e cid = []"
    and "seed_products e cid = []"
proof -
  from no_orders no_events have
    out: "cid \<notin> order_customer_id ` set (map snd (orders ds)) \<union> event_customer_id ` set (events ds)"
    by auto
  with accumulate_customers(1) [of ds]
  have "cid \<notin> fst ` set (acc_customer_products (accumulate ds))" by blast
  then have "cid \<notin> fst ` set (customer_products (build_graph ds))"
    by (force simp: customer_products_build_graph)
  then show p: "purchased_products e cid = []"
    by (simp add: purchased_products_def g get_default_not_key)
  from out accumulate_customers(2) [of ds]
  have "cid \<notin> fst ` fst ` set (acc_event_weights (accumulate ds))" by blast
  then have "cid \<notin> fst ` fst ` set (event_weights (build_graph ds))"
    by (simp add: event_weights_build_graph)
  then have "filter (\<lambda>((c, pid), weight). c = cid \<and> weight > 0) (event_weights (build_graph ds)) = []"
    by (force simp: filter_empty_conv)
  then show i: "interacted_products e cid = []"
    by (simp add: interacted_products_def g set_of_def)
  from p i show "seed_products e cid = []" by (simp add: seed_products_def)
qed

subsection \<open>Cold start\<close>

lemma newcomer_gets_global_pagerank:
  assumes "engine_init (build_graph ds) d tol max_iter = Inr e"
    and "cid \<in> set (customer_ids ds)"
    and "\<forall>ord \<in> set (map snd (orders ds)). order_customer_id ord \<noteq> cid"
    and "\<forall>ev \<in> set (events ds). event_customer_id ev \<noteq> cid"
  shows "recommend_for_customer e cid top_n =
           Inr (map (\<lambda>(pid, s). \<lparr>rec_product_id = pid, score = s,
                                   contributions = [(''global_pagerank'', s)]\<rparr>)
                 (slice_to top_n
                    (sort_key (\<lambda>item. (- snd item, fst item)) (global_pagerank e)))) \<and>
         run_pagerank e (uniform_personalization e) = Inr (global_pagerank e)"
proof -
  have g: "graph e = build_graph ds" by (rule engine_init_fields(1) [OF assms(1)])
  have "seed_products e cid = []" by (rule newcomer_has_no_seeds(3) [OF g assms(3,4)])
  moreover have "ensure_known_customer e cid = Inr ()"
    using assms(2) by (simp add: ensure_known_customer_def g customer_ids_def)
  ultimately have "recommend_for_customer e cid top_n = Inr (fallback_top_pagerank e top_n)"
    by (simp add: recommend_for_customer_def Let_def)
  then show ?thesis
    using engine_init_fields(6) [OF assms(1)]
    by (simp add: fallback_top_pagerank_def top_items_def)
qed

text \<open>
  C4: a customer of the dataset who placed no order and has no event gets exactly the first
  \<^verbatim>\<open>top_n\<close> entries of the cached global PageRank in the order of
  \<^verbatim>\<open>(-score, product_id)\<close>, each with the single contribution
  \<^verbatim>\<open>global_pagerank\<close> equal to its score; the cache is the result of
  \<^verbatim>\<open>_run_pagerank\<close> on the uniform personalization.
\<close>

theorem cold_start_is_global_pagerank:
  assumes "engine_init (build_graph ds) d tol max_iter = Inr e"
    and "cid \<in> set (customer_ids ds)"
    and "\<forall>ord \<in> set (map snd (orders ds)). order_customer_id ord \<noteq> cid"
    and "\<forall>ev \<in> set (events ds). event_customer_id ev \<noteq> cid"
  shows "recommend_for_customer e cid top_n =
           Inr (map (\<lambda>(pid, s). \<lparr>rec_product_id = pid, score = s,
                                   contributions = [(''global_pagerank'', s)]\<rparr>)
                 (slice_to top_n
                    (sort_key (\<lambda>item. (- snd item, fst item)) (global_pagerank e)))) \<and>
         run_pagerank e (uniform_personalization e) = Inr (global_pagerank e)"
  using assms by (rule newcomer_gets_global_pagerank)

section \<open>Evaluation on the example data\<close>

lemma newcomer_engine_run:
  "\<exists>e. engine_init (build_graph newcomer_dataset) (85 / 100) (1 / 10 ^ 6) 1 = Inr e \<and>
     global_pagerank e =
       [(''P1'', 63 / 320), (''P2'', 33 / 64), (''P3'', 29 / 320), (''P4'', 63 / 320)] \<and>
     purchased_products e ''C3'' = [''P1''] \<and>
     interacted_products e ''C3'' = [''P1''] \<and>
     fused_ranking e [''P1''] [''P1''] =
       Inr [\<lparr>rec_product_id = ''P2'', score = 1,
              contributions = [(''co_occurrence'', 2 / 5), (''similarity'', 3 / 10),
                               (''personalized_pagerank'', 3 / 10)]\<rparr>,
            \<lparr>rec_product_id = ''P4'', score = 2 / 5,
              contributions = [(''similarity'', 3 / 10), (''personalized_pagerank'', 1 / 10)]\<rparr>,
            \<lparr>rec_product_id = ''P3'', score = 1 / 3,
              contributions = [(''similarity'', 3 / 10), (''personalized_pagerank'', 1 / 30)]\<rparr>]"
proof -
  have "case engine_init (build_graph newcomer_dataset) (85 / 100) (1 / 10 ^ 6) 1 of
          Inl err \<Rightarrow> False
        | Inr e \<Rightarrow>
            global_pagerank e =
              [(''P1'', 63 / 320), (''P2'', 33 / 64), (''P3'', 29 / 320), (''P4'', 63 / 320)] \<and>
            purchased_products e ''C3'' = [''P1''] \<and>
            interacted_products e ''C3'' = [''P1''] \<and>
            fused_ranking e [''P1''] [''P1''] =
              Inr [\<lparr>rec_product_id = ''P2'', score = 1,
                     contributions = [(''co_occurrence'', 2 / 5), (''similarity'', 3 / 10),
                                      (''personalized_pagerank'', 3 / 10)]\<rparr>,
                   \<lparr>rec_product_id = ''P4'', score = 2 / 5,
                     contributions = [(''similarity'', 3 / 10),
                                      (''personalized_pagerank'', 1 / 10)]\<rparr>,
                   \<lparr>rec_product_id = ''P3'', score = 1 / 3,
                     contributions = [(''similarity'', 3 / 10),
                                      (''personalized_pagerank'', 1 / 30)]\<rparr>]"
    by code_simp
  then show ?thesis
    by (cases "engine_init (build_graph newcomer_dataset) (85 / 100) (1 / 10 ^ 6) 1") simp_all
qed

lemma newcomer_customers:
  "map fst (customers newcomer_dataset) = [''C1'', ''C2'', ''C3'', ''C4'']"
  by (simp add: newcomer_dataset_def load_dataset_def)

lemma newcomer_known:
  assumes "graph e = build_graph newcomer_dataset"
  shows "ensure_known_customer e ''C3'' = Inr ()" and "ensure_known_customer e ''C4'' = Inr ()"
  using assms by (simp_all add: ensure_known_customer_def newcomer_customers)

lemma newcomer_recommend_C3:
  assumes "engine_init (build_graph newcomer_dataset) d tol max_iter = Inr e"
    and "purchased_products e ''C3'' = [''P1'']"
    and "interacted_products e ''C3'' = [''P1'']"
    and "fused_ranking e [''P1''] [''P1''] = Inr combined"
  shows "recommend_for_customer e ''C3'' top_n = Inr (slice_to top_n combined)"
  using assms(2-4) newcomer_known(1) [OF engine_init_fields(1) [OF assms(1)]]
  by (simp add: recommend_for_customer_def seed_products_def set_union_def set_add_def)

theorem seeds_never_recommended_witness:
  "\<exists>e recs. engine_init (build_graph newcomer_dataset) (85 / 100) (1 / 10 ^ 6) 1 = Inr e \<and>
     recommend_for_customer e ''C3'' 3 = Inr recs \<and>
     map rec_product_id recs = [''P2'', ''P4'', ''P3''] \<and>
     purchased_products e ''C3'' = [''P1''] \<and>
     interacted_products e ''C3'' = [''P1''] \<and>
     ''P2'' \<notin> set (purchased_products e ''C3'') \<and>
     ''P2'' \<notin> set (interacted_products e ''C3'') \<and>
     ''P2'' \<notin> set (seed_products e ''C3'')"
proof -
  from newcomer_engine_run obtain e where
    init: "engine_init (build_graph newcomer_dataset) (85 / 100) (1 / 10 ^ 6) 1 = Inr e"
    and p: "purchased_products e ''C3'' = [''P1'']"
    and i: "interacted_products e ''C3'' = [''P1'']"
    and f: "fused_ranking e [''P1''] [''P1''] =
       Inr [\<lparr>rec_product_id = ''P2'', score = 1,
              contributions = [(''co_occurrence'', 2 / 5), (''similarity'', 3 / 10),
                               (''personalized_pagerank'', 3 / 10)]\<rparr>,
            \<lparr>rec_product_id = ''P4'', score = 2 / 5,
              contributions = [(''similarity'', 3 / 10), (''personalized_pagerank'', 1 / 10)]\<rparr>,
            \<lparr>rec_product_id = ''P3'', score = 1 / 3,
              contributions = [(''similarity'', 3 / 10), (''personalized_pagerank'', 1 / 30)]\<rparr>]"
    by blast
  let ?r = "\<lparr>rec_product_id = ''P2'', score = 1,
              contributions = [(''co_occurrence'', 2 / 5), (''similarity'', 3 / 10),
                               (''personalized_pagerank'', 3 / 10)]\<rparr>"
  have run: "recommend_for_customer e ''C3'' 3 =
       Inr [?r,
            \<lparr>rec_product_id = ''P4'', score = 2 / 5,
              contributions = [(''similarity'', 3 / 10), (''personalized_pagerank'', 1 / 10)]\<rparr>,
            \<lparr>rec_product_id = ''P3'', score = 1 / 3,
              contributions = [(''similarity'', 3 / 10), (''personalized_pagerank'', 1 / 30)]\<rparr>]"
    unfolding newcomer_recommend_C3 [OF init p i f] by (simp add: slice_to_def)
  from seeds_never_recommended [OF run, of ?r] init run p i show ?thesis by simp
qed


theorem recommendations_ranked_witness:
  "\<exists>e. engine_init (build_graph newcomer_dataset) (85 / 100) (1 / 10 ^ 6) 1 = Inr e \<and>
     recommend_for_customer e ''C3'' 3 =
       Inr [\<lparr>rec_product_id = ''P2'', score = 1,
              contributions = [(''co_occurrence'', 2 / 5), (''similarity'', 3 / 10),
                               (''personalized_pagerank'', 3 / 10)]\<rparr>,
            \<lparr>rec_product_id = ''P4'', score = 2 / 5,
              contributions = [(''similarity'', 3 / 10), (''personalized_pagerank'', 1 / 10)]\<rparr>,
            \<lparr>rec_product_id = ''P3'', score = 1 / 3,
              contributions = [(''similarity'', 3 / 10), (''personalized_pagerank'', 1 / 30)]\<rparr>] \<and>
     sorted [(- 1 :: real, ''P2''), (- (2 / 5), ''P4''), (- (1 / 3), ''P3'')]"
proof -
  from newcomer_engine_run obtain e where
    init: "engine_init (build_graph newcomer_dataset) (85 / 100) (1 / 10 ^ 6) 1 = Inr e"
    and p: "purchased_products e ''C3'' = [''P1'']"
    and i: "interacted_products e ''C3'' = [''P1'']"
    and f: "fused_ranking e [''P1''] [''P1''] =
       Inr [\<lparr>rec_product_id = ''P2'', score = 1,
              contributions = [(''co_occurrence'', 2 / 5), (''similarity'', 3 / 10),
                               (''personalized_pagerank'', 3 / 10)]\<rparr>,
            \<lparr>rec_product_id = ''P4'', score = 2 / 5,
              contributions = [(''similarity'', 3 / 10), (''personalized_pagerank'', 1 / 10)]\<rparr>,
            \<lparr>rec_product_id = ''P3'', score = 1 / 3,
              contributions = [(''similarity'', 3 / 10), (''personalized_pagerank'', 1 / 30)]\<rparr>]"
    by blast
  have run: "recommend_for_customer e ''C3'' 3 =
       Inr [\<lparr>rec_product_id = ''P2'', score = 1,
              contributions = [(''co_occurrence'', 2 / 5), (''similarity'', 3 / 10),
                               (''personalized_pagerank'', 3 / 10)]\<rparr>,
            \<lparr>rec_product_id = ''P4'', score = 2 / 5,
              contributions = [(''similarity'', 3 / 10), (''personalized_pagerank'', 1 / 10)]\<rparr>,
            \<lparr>rec_product_id = ''P3'', score = 1 / 3,
              contributions = [(''similarity'', 3 / 10), (''personalized_pagerank'', 1 / 30)]\<rparr>]"
    unfolding newcomer_recommend_C3 [OF init p i f] by (simp add: slice_to_def)
  from recommendations_ranked [OF run] have
    "sorted [(- 1 :: real, ''P2''), (- (2 / 5), ''P4''), (- (1 / 3), ''P3'')]"
    by simp
  with init run show ?thesis by blast
qed

lemma newcomer_is_new:
  "''C4'' \<in> set (customer_ids newcomer_dataset)"
  "\<forall>ord \<in> set (map snd (orders newcomer_dataset)). order_customer_id ord \<noteq> ''C4''"
  "\<forall>ev \<in> set (events newcomer_dataset). event_customer_id ev \<noteq> ''C4''"
  by (simp_all add: customer_ids_def newcomer_dataset_def load_dataset_def add_item_def)

theorem cold_start_is_global_pagerank_witness:
  "\<exists>e. engine_init (build_graph newcomer_dataset) (85 / 100) (1 / 10 ^ 6) 1 = Inr e \<and>
     global_pagerank e =
       [(''P1'', 63 / 320), (''P2'', 33 / 64), (''P3'', 29 / 320), (''P4'', 63 / 320)] \<and>
     recommend_for_customer e ''C4'' 3 =
       Inr [\<lparr>rec_product_id = ''P2'', score = 33 / 64,
              contributions = [(''global_pagerank'', 33 / 64)]\<rparr>,
            \<lparr>rec_product_id = ''P1'', score = 63 / 320,
              contributions = [(''global_pagerank'', 63 / 320)]\<rparr>,
            \<lparr>rec_product_id = ''P4'', score = 63 / 320,
              contributions = [(''global_pagerank'', 63 / 320)]\<rparr>]"
proof -
  from newcomer_engine_run obtain e where
    init: "engine_init (build_graph newcomer_dataset) (85 / 100) (1 / 10 ^ 6) 1 = Inr e"
    and gp: "global_pagerank e =
       [(''P1'', 63 / 320), (''P2'', 33 / 64), (''P3'', 29 / 320), (''P4'', 63 / 320)]"
    by blast
  from cold_start_is_global_pagerank [OF init newcomer_is_new, of 3] init gp
  show ?thesis by (simp add: slice_to_def)
qed

section \<open>The bound \<^verbatim>\<open>top_n\<close>\<close>




section \<open>Scores and contributions\<close>

lemma fallback_member:
  assumes "r \<in> set (fallback_top_pagerank e top_n)"
  shows "contributions r = [(''global_pagerank'', score r)] \<and>
         (rec_product_id r, score r) \<in> set (global_pagerank e)"
proof -
  from assms obtain pid s where
    item: "(pid, s) \<in> set (top_items (global_pagerank e) top_n [])"
    and r: "r = \<lparr>rec_product_id = pid, score = s, contributions = [(''global_pagerank'', s)]\<rparr>"
    by (auto simp: fallback_top_pagerank_def)
  from item have "(pid, s) \<in> set (global_pagerank e)"
    using set_slice_to [of top_n] by (fastforce simp: top_items_def)
  with r show ?thesis by simp
qed

text \<open>
  C10, as amended: the score of every returned recommendation is the sum of the values of its
  contributions; on the fused path every value is positive; on the cold-start path the single
  value is the product's global PageRank, which is positive when the damping is in \<open>[0, 1)\<close>.
\<close>

theorem score_is_sum_of_contributions:
  assumes "engine_init (build_graph ds) d tol max_iter = Inr e"
    and "recommend_for_customer e cid top_n = Inr recs" and "r \<in> set recs"
  shows "score r = sum_list (map snd (contributions r)) \<and>
         (seed_products e cid \<noteq> [] \<or> (0 \<le> d \<and> d < 1) \<longrightarrow>
            (\<forall>v \<in> snd ` set (contributions r). 0 < v))"
  using assms(2)
proof (cases rule: recommend_cases)
  case cold
  from assms(3) cold(2) have m: "contributions r = [(''global_pagerank'', score r)]"
    and g: "(rec_product_id r, score r) \<in> set (global_pagerank e)"
    using fallback_member by blast+
  have "0 < score r" if "0 \<le> d" "d < 1"
    using global_pagerank_pos [OF assms(1) that] g by (rule positive_valuesD)
  with m cold(1) show ?thesis by simp
next
  case (fused combined)
  have "set recs \<subseteq> set combined" unfolding fused(3) by (rule set_slice_to)
  with assms(3) have r: "r \<in> set combined" by (rule subsetD [rotated])
  from fused(2) obtain ppr where
    comb: "combined = combine_strategies
       [(''co_occurrence'', normalize_scores (co_occurrence_scores e (seed_products e cid))),
        (''similarity'', normalize_scores (similarity_scores e (seed_products e cid))),
        (''personalized_pagerank'', normalize_scores ppr)]
       (set_union (purchased_products e cid) (interacted_products e cid))"
    by (rule fused_ranking_cases)
  from combine_strategies_member [OF r [unfolded comb]] show ?thesis by simp
qed


section \<open>Instances on the example data\<close>

lemma newcomer_fused_C3:
  "\<exists>e. engine_init (build_graph newcomer_dataset) (85 / 100) (1 / 10 ^ 6) 1 = Inr e \<and>
     seed_products e ''C3'' = [''P1''] \<and>
     fused_ranking e (seed_products e ''C3'')
       (set_union (purchased_products e ''C3'') (interacted_products e ''C3'')) = Inr C3_ranking \<and>
     (\<forall>top_n. recommend_for_customer e ''C3'' top_n = Inr (slice_to top_n C3_ranking))"
proof -
  from newcomer_engine_run obtain e where
    init: "engine_init (build_graph newcomer_dataset) (85 / 100) (1 / 10 ^ 6) 1 = Inr e"
    and p: "purchased_products e ''C3'' = [''P1'']"
    and i: "interacted_products e ''C3'' = [''P1'']"
    and f: "fused_ranking e [''P1''] [''P1''] = Inr C3_ranking"
    unfolding C3_ranking_def by blast
  have s: "seed_products e ''C3'' = [''P1'']" by (simp add: seed_products_def p)
  have u: "set_union (purchased_products e ''C3'') (interacted_products e ''C3'') = [''P1'']"
    by (simp add: p i set_union_def set_add_def)
  from init s u f newcomer_recommend_C3 [OF init p i f] show ?thesis by simp
qed



lemma overdamped_engine_run:
  "\<exists>e. engine_init (build_graph newcomer_dataset) 2 (1 / 10 ^ 6) 1 = Inr e \<and>
     global_pagerank e = [(''P1'', 1 / 8), (''P2'', 7 / 8), (''P3'', - (1 / 8)), (''P4'', 1 / 8)]"
proof -
  have "case engine_init (build_graph newcomer_dataset) 2 (1 / 10 ^ 6) 1 of
          Inl err \<Rightarrow> False
        | Inr e \<Rightarrow> global_pagerank e =
            [(''P1'', 1 / 8), (''P2'', 7 / 8), (''P3'', - (1 / 8)), (''P4'', 1 / 8)]"
    by code_simp
  then show ?thesis
    by (cases "engine_init (build_graph newcomer_dataset) 2 (1 / 10 ^ 6) 1") simp_all
qed

theorem score_is_sum_of_contributions_counterexample:
  "\<exists>e. engine_init (build_graph newcomer_dataset) 2 (1 / 10 ^ 6) 1 = Inr e \<and>
     recommend_for_customer e ''C4'' 4 =
       Inr [\<lparr>rec_product_id = ''P2'', score = 7 / 8,
              contributions = [(''global_pagerank'', 7 / 8)]\<rparr>,
            \<lparr>rec_product_id = ''P1'', score = 1 / 8,
              contributions = [(''global_pagerank'', 1 / 8)]\<rparr>,
            \<lparr>rec_product_id = ''P4'', score = 1 / 8,
              contributions = [(''global_pagerank'', 1 / 8)]\<rparr>,
            \<lparr>rec_product_id = ''P3'', score = - (1 / 8),
              contributions = [(''global_pagerank'', - (1 / 8))]\<rparr>] \<and>
     \<not> 0 < (- (1 / 8) :: real)"
proof -
  from overdamped_engine_run obtain e where
    init: "engine_init (build_graph newcomer_dataset) 2 (1 / 10 ^ 6) 1 = Inr e"
    and gp: "global_pagerank e =
       [(''P1'', 1 / 8), (''P2'', 7 / 8), (''P3'', - (1 / 8)), (''P4'', 1 / 8)]"
    by blast
  from newcomer_gets_global_pagerank [OF init newcomer_is_new, of 4] init gp
  show ?thesis by (simp add: slice_to_def)
qed

theorem score_is_sum_of_contributions_witness:
  "\<exists>e r. engine_init (build_graph newcomer_dataset) (85 / 100) (1 / 10 ^ 6) 1 = Inr e \<and>
     recommend_for_customer e ''C3'' 1 = Inr [r] \<and>
     contributions r = [(''co_occurrence'', 2 / 5), (''similarity'', 3 / 10),
                        (''personalized_pagerank'', 3 / 10)] \<and>
     score r = 1 \<and>
     score r = sum_list (map snd (contributions r)) \<and>
     (\<forall>v \<in> snd ` set (contributions r). 0 < v)"
proof -
  from newcomer_fused_C3 obtain e where
    init: "engine_init (build_graph newcomer_dataset) (85 / 100) (1 / 10 ^ 6) 1 = Inr e"
    and s: "seed_products e ''C3'' = [''P1'']"
    and run: "\<forall>top_n. recommend_for_customer e ''C3'' top_n = Inr (slice_to top_n C3_ranking)"
    by blast
  let ?r = "\<lparr>rec_product_id = ''P2'', score = 1,
            contributions = [(''co_occurrence'', 2 / 5), (''similarity'', 3 / 10),
                             (''personalized_pagerank'', 3 / 10)]\<rparr>"
  from run have "recommend_for_customer e ''C3'' 1 = Inr (slice_to 1 C3_ranking)" ..
  then have one: "recommend_for_customer e ''C3'' 1 = Inr [?r]"
    by (simp add: slice_to_def C3_ranking_def)
  have "?r \<in> set [?r]" by simp
  from score_is_sum_of_contributions [OF init one this] s
  have "score ?r = sum_list (map snd (contributions ?r)) \<and>
        (\<forall>v \<in> snd ` set (contributions ?r). 0 < v)"
    by simp
  with init one show ?thesis by (intro exI [of _ e] exI [of _ ?r]) simp
qed

section \<open>The reference scenario\<close>

lemma reference_accumulate:
  "accumulate load_dataset =
     \<lparr>acc_cooccurrence =
        [(''P1'', [(''P2'', 1)]), (''P2'', [(''P1'', 1), (''P4'', 1)]), (''P4'', [(''P2'', 1)])],
      acc_product_customers =
        [(''P1'', [''C1'', ''C3'']), (''P2'', [''C1'', ''C2'']), (''P3'', [''C2'', ''C1'']),
         (''P4'', [''C1'', ''C2''])],
      acc_customer_products =
        [(''C1'', [''P1'', ''P2'', ''P4'', ''P3'']), (''C2'', [''P3'', ''P2'', ''P4'']),
         (''C3'', [''P1''])],
      acc_event_weights =
        [((''C1'', ''P3''), 3 / 2), ((''C3'', ''P1''), 1 / 2), ((''C2'', ''P2''), 1 / 2),
         ((''C2'', ''P4''), 2)]\<rparr>"
  by code_simp

lemma reference_customer_products:
  "customer_products (build_graph load_dataset) =
     [(''C1'', [''P1'', ''P2'', ''P4'', ''P3'']), (''C2'', [''P3'', ''P2'', ''P4'']),
      (''C3'', [''P1''])]"
  by (simp add: customer_products_build_graph reference_accumulate set_of_def set_add_def)

lemma reference_event_weights:
  "event_weights (build_graph load_dataset) =
     [((''C1'', ''P3''), 3 / 2), ((''C3'', ''P1''), 1 / 2), ((''C2'', ''P2''), 1 / 2),
      ((''C2'', ''P4''), 2)]"
  by (simp add: event_weights_build_graph reference_accumulate dict_of_def)

lemma reference_product_cooccurrence:
  "product_cooccurrence (build_graph load_dataset) =
     [(''P1'', [(''P2'', 1)]), (''P2'', [(''P1'', 1), (''P4'', 1)]), (''P4'', [(''P2'', 1)])]"
  by (simp add: product_cooccurrence_build_graph reference_accumulate dict_of_def)

lemma reference_product_customers:
  "product_customers (build_graph load_dataset) =
     [(''P1'', [''C1'', ''C3'']), (''P2'', [''C1'', ''C2'']), (''P3'', [''C2'', ''C1'']),
      (''P4'', [''C1'', ''C2''])]"
  by (simp add: product_customers_build_graph reference_accumulate set_of_def set_add_def)

lemma keys_normalize_scores: "map fst (normalize_scores scores) = map fst scores"
  by (cases scores) (auto simp: normalize_scores_def Let_def split_beta)

lemma fold_add_contribution_excluded:
  "fst ` set scores \<subseteq> set exclude \<Longrightarrow>
   foldl (add_contribution name w exclude) combined scores = combined"
  by (induction scores arbitrary: combined) (auto simp: add_contribution_def)

lemma add_strategy_excluded:
  "fst ` set scores \<subseteq> set exclude \<Longrightarrow> add_strategy exclude combined (name, scores) = combined"
  by (simp add: add_strategy_def Let_def fold_add_contribution_excluded)

lemma combine_strategies_excluded:
  assumes "\<forall>entry \<in> set strategies. fst ` set (snd entry) \<subseteq> set exclude"
  shows "combine_strategies strategies exclude = []"
proof -
  have "foldl (add_strategy exclude) combined strategies = combined" for combined
    using assms
  proof (induction strategies arbitrary: combined)
    case Nil
    then show ?case by simp
  next
    case (Cons s strategies)
    obtain name scores where s: "s = (name, scores)" by (cases s)
    from Cons.prems s have "fst ` set scores \<subseteq> set exclude" by simp
    then have "add_strategy exclude combined s = combined"
      unfolding s by (rule add_strategy_excluded)
    with Cons show ?case by simp
  qed
  then show ?thesis by (simp add: combine_strategies_def)
qed

lemma personalized_pagerank_keys:
  assumes "engine_ok e" and "seeds \<noteq> []"
  shows "\<exists>ppr. personalized_pagerank e seeds = Inr ppr \<and> map fst ppr = engine_product_ids e"
  using assms(2) run_pagerank_total [OF assms(1)]
  by (simp add: personalized_pagerank_def Let_def)

lemma reference_C1:
  assumes "graph e = build_graph load_dataset"
  shows "purchased_products e ''C1'' = [''P1'', ''P2'', ''P4'', ''P3'']"
    and "interacted_products e ''C1'' = [''P3'']"
    and "seed_products e ''C1'' = [''P1'', ''P2'', ''P4'', ''P3'']"
    and "ensure_known_customer e ''C1'' = Inr ()"
proof -
  show p: "purchased_products e ''C1'' = [''P1'', ''P2'', ''P4'', ''P3'']"
    by (simp add: purchased_products_def assms reference_customer_products get_default_def
        set_of_def set_add_def)
  show "interacted_products e ''C1'' = [''P3'']"
    by (simp add: interacted_products_def assms reference_event_weights set_of_def set_add_def)
  show "seed_products e ''C1'' = [''P1'', ''P2'', ''P4'', ''P3'']"
    by (simp add: seed_products_def p)
  show "ensure_known_customer e ''C1'' = Inr ()"
    by (simp add: ensure_known_customer_def assms load_dataset_def)
qed

lemma reference_C1_scores:
  assumes "graph e = build_graph load_dataset"
  shows "co_occurrence_scores e [''P1'', ''P2'', ''P4'', ''P3''] = []"
    and "similarity_scores e [''P1'', ''P2'', ''P4'', ''P3''] = []"
  by (simp_all add: co_occurrence_scores_def similarity_scores_def assms
      reference_product_cooccurrence reference_product_customers get_default_def)

lemma reference_C1_run:
  assumes "engine_init (build_graph load_dataset) d tol max_iter = Inr e"
  shows "recommend_for_customer e ''C1'' top_n = Inr []"
proof -
  let ?seeds = "[''P1'', ''P2'', ''P4'', ''P3'']"
  have g: "graph e = build_graph load_dataset" by (rule engine_init_fields(1) [OF assms])
  note c1 = reference_C1 [OF g]
  have ok: "engine_ok e" by (rule engine_init_build_graph_ok [OF assms])
  have pids: "engine_product_ids e = [''P1'', ''P2'', ''P3'', ''P4'']"
    using engine_init_fields(5) [OF assms] by (simp add: reference_product_ids)
  have u: "set_union ?seeds [''P3''] = ?seeds"
    by (simp add: set_union_def set_add_def)
  from personalized_pagerank_keys [OF ok, of ?seeds] pids obtain ppr where
    ppr: "personalized_pagerank e ?seeds = Inr ppr"
    and keys: "map fst ppr = [''P1'', ''P2'', ''P3'', ''P4'']"
    by auto
  have "fst ` set (normalize_scores ppr) = set (map fst ppr)"
    using keys_normalize_scores [of ppr] by (metis list.set_map)
  with keys have k: "fst ` set (normalize_scores ppr) \<subseteq> set ?seeds" by auto
  have "fused_ranking e ?seeds ?seeds =
      Inr (combine_strategies
        [(''co_occurrence'', normalize_scores []), (''similarity'', normalize_scores []),
         (''personalized_pagerank'', normalize_scores ppr)] ?seeds)"
    by (simp add: fused_ranking_def Let_def ppr reference_C1_scores [OF g])
  also have "combine_strategies
        [(''co_occurrence'', normalize_scores []), (''similarity'', normalize_scores []),
         (''personalized_pagerank'', normalize_scores ppr)] ?seeds = []"
    by (rule combine_strategies_excluded) (use k in \<open>simp add: normalize_scores_def\<close>)
  finally have "fused_ranking e ?seeds ?seeds = Inr []" .
  then show ?thesis
    by (simp add: recommend_for_customer_def Let_def c1 u slice_to_def)
qed

text \<open>
  C5, as amended: on the reference dataset the purchased set of customer C1 is
  \<open>{P1, P2, P4, P3}\<close>, because \<^verbatim>\<open>build_graph\<close> adds the product of every event to
  \<^verbatim>\<open>customer_products\<close>, and events E1 and E2 are about P3. So P3 is a seed, every
  product of the dataset is excluded, and \<^verbatim>\<open>recommend_for_customer\<close> returns the empty
  list, whatever the parameters of the engine and \<^verbatim>\<open>top_n\<close>.
\<close>

theorem reference_C1_gets_nothing:
  assumes "engine_init (build_graph load_dataset) d tol max_iter = Inr e"
  shows "purchased_products e ''C1'' = [''P1'', ''P2'', ''P4'', ''P3''] \<and>
         interacted_products e ''C1'' = [''P3''] \<and>
         seed_products e ''C1'' = [''P1'', ''P2'', ''P4'', ''P3''] \<and>
         recommend_for_customer e ''C1'' top_n = Inr []"
  using reference_C1 (1-3) [OF engine_init_fields(1) [OF assms]] reference_C1_run [OF assms]
  by simp

theorem reference_C1_gets_nothing_witness:
  "\<exists>e. ENGINE = Inr e \<and>
     purchased_products e ''C1'' = [''P1'', ''P2'', ''P4'', ''P3''] \<and>
     recommend_for_customer e ''C1'' 3 = Inr []"
proof -
  from default_engine_total [of load_dataset] obtain e where
    e: "default_engine (build_graph load_dataset) = Inr e" ..
  then have "engine_init (build_graph load_dataset) (85 / 100) (1 / 10 ^ 6) 50 = Inr e"
    by (simp add: default_engine_def)
  from reference_C1_gets_nothing [OF this, of 3] e show ?thesis
    by (simp add: ENGINE_def GRAPH_def DATASET_def)
qed

theorem reference_C1_counterexample:
  "(\<exists>e. ENGINE = Inr e) \<and>
   \<not> (\<exists>e recs r. ENGINE = Inr e \<and> recommend_for_customer e ''C1'' 3 = Inr recs \<and>
         r \<in> set recs \<and> rec_product_id r = ''P3'')"
proof -
  from default_engine_total [of load_dataset] obtain e where
    e: "default_engine (build_graph load_dataset) = Inr e" ..
  then have init: "engine_init (build_graph load_dataset) (85 / 100) (1 / 10 ^ 6) 50 = Inr e"
    by (simp add: default_engine_def)
  have E: "ENGINE = Inr e" using e by (simp add: ENGINE_def GRAPH_def DATASET_def)
  have run: "recommend_for_customer e ''C1'' 3 = Inr []"
    using reference_C1_run [OF init] .
  have "False" if "ENGINE = Inr e'" "recommend_for_customer e' ''C1'' 3 = Inr recs"
      "r \<in> set recs" for e' recs r
  proof -
    from that(1) [symmetric] E have "(Inr e' :: error + RecommendationEngine) = Inr e"
      by (rule trans)
    then have "e' = e" by (simp only: sum.inject)
    with that(2,3) run show False by simp
  qed
  with E show ?thesis by blast
qed

section \<open>Events of an unknown type\<close>

subsection \<open>Incidence is symmetric\<close>

lemma get_default_dd_add:
  "get_default (dd_add k x d) k' [] =
     (if k' = k then set_add x (get_default d k []) else get_default d k' [])"
  by (simp add: dd_add_def get_default_update)

lemma incidence_ok_add_incidence:
  "incidence_ok acc \<Longrightarrow> incidence_ok (add_incidence pid cid acc)"
  unfolding incidence_ok_def add_incidence_def
  by (simp add: get_default_dd_add)

lemma incidence_ok_fold_incidence:
  "incidence_ok acc \<Longrightarrow> incidence_ok (foldl (\<lambda>a pid. add_incidence pid cid a) acc pids)"
  by (induction pids arbitrary: acc) (simp_all add: incidence_ok_add_incidence)

lemma product_customers_add_pair [simp]:
  "acc_product_customers (add_pair acc lr) = acc_product_customers acc"
  by (cases lr) (simp add: add_pair_def)

lemma product_customers_fold_pair [simp]:
  "acc_product_customers (foldl add_pair acc pairs) = acc_product_customers acc"
  by (induction pairs arbitrary: acc) simp_all

lemma incidence_ok_fold_pair:
  "incidence_ok acc \<Longrightarrow> incidence_ok (foldl add_pair acc pairs)"
  by (simp add: incidence_ok_def)

lemma incidence_ok_process_order:
  "incidence_ok acc \<Longrightarrow> incidence_ok (process_order acc ord)"
  by (simp add: process_order_def Let_def incidence_ok_fold_pair incidence_ok_fold_incidence)

lemma incidence_ok_process_event:
  "incidence_ok acc \<Longrightarrow> incidence_ok (process_event acc ev)"
  using incidence_ok_add_incidence [of acc "event_product_id ev" "event_customer_id ev"]
  by (simp add: process_event_def Let_def incidence_ok_def)

lemma incidence_ok_accumulate: "incidence_ok (accumulate ds)"
proof -
  let ?acc0 = "\<lparr>acc_cooccurrence = [], acc_product_customers = [],
                acc_customer_products = [], acc_event_weights = []\<rparr>"
  have "incidence_ok ?acc0" by (simp add: incidence_ok_def get_default_def)
  then have "incidence_ok (foldl process_order ?acc0 (map snd (orders ds)))"
    by (rule foldl_invariant) (rule incidence_ok_process_order)
  then have "incidence_ok (foldl process_event (foldl process_order ?acc0 (map snd (orders ds)))
      (events ds))"
    by (rule foldl_invariant) (rule incidence_ok_process_event)
  then show ?thesis by (simp add: accumulate_def Let_def)
qed

subsection \<open>The keys of the event weights are distinct\<close>

lemma event_weights_process_order [simp]:
  "acc_event_weights (process_order acc ord) = acc_event_weights acc"
  by (simp add: process_order_def Let_def)

lemma distinct_event_weights_process_event:
  "distinct (map fst (acc_event_weights acc)) \<Longrightarrow>
   distinct (map fst (acc_event_weights (process_event acc ev)))"
  by (simp add: process_event_def Let_def distinct_update)

lemma distinct_event_weights_accumulate:
  "distinct (map fst (acc_event_weights (accumulate ds)))"
proof -
  let ?acc0 = "\<lparr>acc_cooccurrence = [], acc_product_customers = [],
                acc_customer_products = [], acc_event_weights = []\<rparr>"
  have "distinct (map fst (acc_event_weights (foldl process_order ?acc0 (map snd (orders ds)))))"
    by (rule foldl_invariant [where P = "\<lambda>acc. distinct (map fst (acc_event_weights acc))"])
       simp_all
  then have "distinct (map fst (acc_event_weights
      (foldl process_event (foldl process_order ?acc0 (map snd (orders ds))) (events ds))))"
    by (rule foldl_invariant [where P = "\<lambda>acc. distinct (map fst (acc_event_weights acc))"])
       (rule distinct_event_weights_process_event)
  then show ?thesis by (simp add: accumulate_def Let_def)
qed

subsection \<open>One more event\<close>

lemma accumulate_append_event:
  "accumulate (ds\<lparr>events := events ds @ [ev]\<rparr>) = process_event (accumulate ds) ev"
  by (simp add: accumulate_def Let_def)

lemma update_get_default:
  "AList.update k (get_default d k dflt) d = (if k \<in> fst ` set d then d else d @ [(k, dflt)])"
proof (cases "map_of d k")
  case None
  then have "k \<notin> fst ` set d" by (simp add: map_of_eq_None_iff)
  moreover from this have "AList.update k dflt d = d @ [(k, dflt)]"
    by (induction d) auto
  ultimately show ?thesis using None by (simp add: get_default_def)
next
  case (Some v)
  then have "k \<in> fst ` set d" by (metis map_of_eq_None_iff option.distinct(1))
  with Some show ?thesis by (simp add: get_default_def update_triv)
qed

lemma interacted_filter_append_event:
  assumes "get_default EVENT_WEIGHTS (event_type ev) 0 = 0"
  shows "filter (\<lambda>((c, pid), weight). c = cid \<and> weight > 0)
           (event_weights (build_graph (ds\<lparr>events := events ds @ [ev]\<rparr>)))
       = filter (\<lambda>((c, pid), weight). c = cid \<and> weight > 0) (event_weights (build_graph ds))"
proof -
  let ?E = "acc_event_weights (accumulate ds)"
  let ?k = "(event_customer_id ev, event_product_id ev)"
  let ?E' = "acc_event_weights (process_event (accumulate ds) ev)"
  have E': "?E' = (if ?k \<in> fst ` set ?E then ?E else ?E @ [(?k, 0)])"
    using assms update_get_default [of ?k ?E 0] by (simp add: process_event_def Let_def)
  have d: "distinct (map fst ?E)" by (rule distinct_event_weights_accumulate)
  have d': "distinct (map fst ?E')"
    using distinct_event_weights_accumulate [of "ds\<lparr>events := events ds @ [ev]\<rparr>"]
    by (simp add: accumulate_append_event)
  have "filter (\<lambda>((c, pid), weight). c = cid \<and> weight > 0) ?E'
      = filter (\<lambda>((c, pid), weight). c = cid \<and> weight > 0) ?E"
    unfolding E' by simp
  then show ?thesis
    by (simp add: event_weights_build_graph accumulate_append_event
        dict_of_distinct [OF d] dict_of_distinct [OF d'])
qed

lemma dd_add_present:
  assumes "x \<in> set (get_default d k [])"
  shows "dd_add k x d = d"
proof -
  from assms have ne: "get_default d k [] \<noteq> []" by auto
  then obtain row where row: "map_of d k = Some row"
    by (cases "map_of d k") (simp_all add: get_default_def)
  with assms have "set_add x (get_default d k []) = row"
    by (simp add: get_default_def set_add_def)
  with row show ?thesis by (simp add: dd_add_def update_triv)
qed

lemma incidence_append_event:
  assumes "event_product_id ev \<in> set (get_default (acc_customer_products (accumulate ds))
      (event_customer_id ev) [])"
  shows "acc_customer_products (process_event (accumulate ds) ev)
           = acc_customer_products (accumulate ds)"
    and "acc_product_customers (process_event (accumulate ds) ev)
           = acc_product_customers (accumulate ds)"
proof -
  from assms incidence_ok_accumulate [of ds]
  have "event_customer_id ev \<in> set (get_default (acc_product_customers (accumulate ds))
      (event_product_id ev) [])"
    by (simp add: incidence_ok_def)
  with assms show "acc_customer_products (process_event (accumulate ds) ev)
           = acc_customer_products (accumulate ds)"
    and "acc_product_customers (process_event (accumulate ds) ev)
           = acc_product_customers (accumulate ds)"
    by (simp_all add: process_event_def Let_def add_incidence_def dd_add_present)
qed

lemma get_default_map_values:
  "f [] = [] \<Longrightarrow> get_default (map (\<lambda>(k, v). (k, f v)) d) k [] = f (get_default d k [])"
  by (induction d) (auto simp: get_default_def)

subsection \<open>Engines that agree on what the scoring reads\<close>

lemma same_scoringD:
  assumes "same_scoring e e'"
  shows "product_cooccurrence (graph e') = product_cooccurrence (graph e)"
    and "product_customers (graph e') = product_customers (graph e)"
    and "customer_products (graph e') = customer_products (graph e)"
    and "product_adjacency (graph e') = product_adjacency (graph e)"
    and "damping e' = damping e" and "tolerance e' = tolerance e"
    and "max_iterations e' = max_iterations e"
    and "engine_product_ids e' = engine_product_ids e"
  using assms by (simp_all add: same_scoring_def)

lemma same_scoring_co_occurrence:
  assumes "same_scoring e e'"
  shows "co_occurrence_scores e' seeds = co_occurrence_scores e seeds"
  unfolding co_occurrence_scores_def same_scoringD(1) [OF assms] ..

lemma same_scoring_jaccard:
  assumes "same_scoring e e'"
  shows "jaccard_step e' = jaccard_step e"
  unfolding jaccard_step_def fun_eq_iff same_scoringD(2) [OF assms] by simp

lemma same_scoring_similarity:
  assumes "same_scoring e e'"
  shows "similarity_scores e' seeds = similarity_scores e seeds"
  unfolding similarity_scores_def same_scoring_jaccard [OF assms] same_scoringD(2) [OF assms] ..

lemma same_scoring_purchased:
  assumes "same_scoring e e'"
  shows "purchased_products e' cid = purchased_products e cid"
  unfolding purchased_products_def same_scoringD(3) [OF assms] ..

lemma same_scoring_uniform:
  assumes "same_scoring e e'"
  shows "uniform_personalization e' = uniform_personalization e"
  unfolding uniform_personalization_def same_scoringD(8) [OF assms] ..

lemma same_scoring_normalize:
  assumes "same_scoring e e'"
  shows "normalize_personalization e' vals = normalize_personalization e vals"
  unfolding normalize_personalization_def same_scoring_uniform [OF assms]
    same_scoringD(8) [OF assms] ..

lemma same_scoring_propagate:
  assumes "same_scoring e e'"
  shows "propagate e' = propagate e"
  unfolding propagate_def fun_eq_iff same_scoringD(4) [OF assms] same_scoringD(5) [OF assms]
  by simp

lemma same_scoring_iteration:
  assumes "same_scoring e e'"
  shows "pagerank_iteration e' p ranks = pagerank_iteration e p ranks"
  unfolding pagerank_iteration_def same_scoring_propagate [OF assms]
    same_scoringD(4) [OF assms] same_scoringD(5) [OF assms] same_scoringD(8) [OF assms] ..

lemma same_scoring_loop:
  assumes "same_scoring e e'"
  shows "pagerank_loop e' p n ranks = pagerank_loop e p n ranks"
proof (induction n arbitrary: ranks)
  case 0
  show ?case by simp
next
  case (Suc n)
  show ?case
    unfolding pagerank_loop.simps same_scoring_iteration [OF assms]
      same_scoringD(6) [OF assms] Suc.IH ..
qed

lemma same_scoring_run_pagerank:
  assumes "same_scoring e e'"
  shows "run_pagerank e' p = run_pagerank e p"
  unfolding run_pagerank_def same_scoring_normalize [OF assms] same_scoring_loop [OF assms]
    same_scoringD(7) [OF assms] same_scoringD(8) [OF assms] ..

lemma same_scoring_personalized:
  assumes "same_scoring e e'" and "global_pagerank e' = global_pagerank e"
  shows "personalized_pagerank e' seeds = personalized_pagerank e seeds"
  unfolding personalized_pagerank_def same_scoring_run_pagerank [OF assms(1)]
    same_scoringD(8) [OF assms(1)] assms(2) ..

lemma same_scoring_fused:
  assumes "same_scoring e e'" and "global_pagerank e' = global_pagerank e"
  shows "fused_ranking e' seeds exclude = fused_ranking e seeds exclude"
  unfolding fused_ranking_def same_scoring_co_occurrence [OF assms(1)]
    same_scoring_similarity [OF assms(1)] same_scoring_personalized [OF assms] ..

lemma same_scoring_results:
  assumes s: "same_scoring e e'" and gp: "global_pagerank e' = global_pagerank e"
    and cs: "customers (dataset (graph e')) = customers (dataset (graph e))"
    and i: "interacted_products e' cid = interacted_products e cid"
  shows "recommend_for_customer e' cid top_n = recommend_for_customer e cid top_n"
    and "strategy_breakdown e' cid top_n = strategy_breakdown e cid top_n"
proof -
  have k: "ensure_known_customer e' cid = ensure_known_customer e cid"
    unfolding ensure_known_customer_def cs ..
  have p: "purchased_products e' cid = purchased_products e cid"
    by (rule same_scoring_purchased [OF s])
  have sd: "seed_products e' cid = seed_products e cid"
    unfolding seed_products_def p i ..
  have f: "fallback_top_pagerank e' top_n = fallback_top_pagerank e top_n"
    unfolding fallback_top_pagerank_def gp ..
  show "recommend_for_customer e' cid top_n = recommend_for_customer e cid top_n"
    unfolding recommend_for_customer_def k p i sd f same_scoring_fused [OF s gp] ..
  show "strategy_breakdown e' cid top_n = strategy_breakdown e cid top_n"
    unfolding strategy_breakdown_def k p i sd gp same_scoring_co_occurrence [OF s]
        same_scoring_similarity [OF s] same_scoring_personalized [OF s gp] ..
qed

lemma same_scoring_init:
  assumes "engine_init g d tol max_iter = Inr e" and "engine_init g' d tol max_iter = Inr e'"
    and "product_cooccurrence g' = product_cooccurrence g"
    and "product_customers g' = product_customers g"
    and "customer_products g' = customer_products g"
    and "product_adjacency g' = product_adjacency g"
  shows "same_scoring e e'" and "global_pagerank e' = global_pagerank e"
proof -
  show s: "same_scoring e e'"
    using engine_init_fields(1-5) [OF assms(1)] engine_init_fields(1-5) [OF assms(2)] assms(3-6)
    by (simp add: same_scoring_def)
  have "run_pagerank e' (uniform_personalization e') = run_pagerank e (uniform_personalization e)"
    unfolding same_scoring_run_pagerank [OF s] same_scoring_uniform [OF s] ..
  with engine_init_fields(6) [OF assms(1)] engine_init_fields(6) [OF assms(2)]
  show "global_pagerank e' = global_pagerank e" by simp
qed

subsection \<open>What one more event of an unknown type changes\<close>

lemma unknown_type_weight:
  "event_type ev \<notin> {''view'', ''click'', ''add_to_cart''} \<Longrightarrow>
   get_default EVENT_WEIGHTS (event_type ev) 0 = 0"
  by (simp add: EVENT_WEIGHTS_def get_default_def)

lemma unknown_event_interacted:
  assumes "get_default EVENT_WEIGHTS (event_type ev) 0 = 0"
    and "graph e = build_graph ds"
    and "graph e' = build_graph (ds\<lparr>events := events ds @ [ev]\<rparr>)"
  shows "interacted_products e' cid = interacted_products e cid"
  unfolding interacted_products_def assms(2,3) interacted_filter_append_event [OF assms(1)] ..

lemma unknown_event_results:
  assumes w: "get_default EVENT_WEIGHTS (event_type ev) 0 = 0"
    and init: "engine_init (build_graph ds) d tol max_iter = Inr e"
    and init': "engine_init (build_graph (ds\<lparr>events := events ds @ [ev]\<rparr>)) d tol max_iter = Inr e'"
    and known: "event_product_id ev \<in> set (purchased_products e (event_customer_id ev))"
  shows "recommend_for_customer e' cid top_n = recommend_for_customer e cid top_n"
    and "strategy_breakdown e' cid top_n = strategy_breakdown e cid top_n"
proof -
  let ?ds' = "ds\<lparr>events := events ds @ [ev]\<rparr>"
  have g: "graph e = build_graph ds" by (rule engine_init_fields(1) [OF init])
  have g': "graph e' = build_graph ?ds'" by (rule engine_init_fields(1) [OF init'])
  have "get_default (map (\<lambda>(k, v). (k, set_of v)) (acc_customer_products (accumulate ds)))
        (event_customer_id ev) []
      = set_of (get_default (acc_customer_products (accumulate ds)) (event_customer_id ev) [])"
    by (rule get_default_map_values [where f = set_of]) simp
  with known
  have "event_product_id ev \<in> set (get_default (acc_customer_products (accumulate ds))
      (event_customer_id ev) [])"
    by (simp add: purchased_products_def g customer_products_build_graph)
  note same = incidence_append_event [OF this]
  have cp: "customer_products (build_graph ?ds') = customer_products (build_graph ds)"
    by (simp add: customer_products_build_graph accumulate_append_event same)
  have pc: "product_customers (build_graph ?ds') = product_customers (build_graph ds)"
    by (simp add: product_customers_build_graph accumulate_append_event same)
  have co: "product_cooccurrence (build_graph ?ds') = product_cooccurrence (build_graph ds)"
    by (simp add: product_cooccurrence_build_graph accumulate_append_event)
  have adj: "product_adjacency (build_graph ?ds') = product_adjacency (build_graph ds)"
    by (simp add: product_adjacency_build_graph accumulate_append_event product_ids_def)
  note s = same_scoring_init [OF init init' co pc cp adj]
  have cs: "customers (dataset (graph e')) = customers (dataset (graph e))"
    by (simp add: g g')
  have i: "interacted_products e' cid = interacted_products e cid"
    by (rule unknown_event_interacted [OF w g g'])
  show "recommend_for_customer e' cid top_n = recommend_for_customer e cid top_n"
    and "strategy_breakdown e' cid top_n = strategy_breakdown e cid top_n"
    by (rule same_scoring_results [OF s cs i])+
qed

text \<open>
  C6, as amended: an event whose type is not view, click or add_to_cart has weight 0, and
  adding it to the dataset leaves the interacted set of every customer unchanged. The event is
  still recorded in \<^verbatim>\<open>product_customers\<close> and \<^verbatim>\<open>customer_products\<close>; when its
  product is already in the purchased set of its customer, the results of
  \<^verbatim>\<open>recommend_for_customer\<close> and \<^verbatim>\<open>strategy_breakdown\<close> are unchanged for every
  customer.
\<close>

theorem unknown_event_adds_no_weight:
  assumes "event_type ev \<notin> {''view'', ''click'', ''add_to_cart''}"
    and "engine_init (build_graph ds) d tol max_iter = Inr e"
    and "engine_init (build_graph (ds\<lparr>events := events ds @ [ev]\<rparr>)) d tol max_iter = Inr e'"
  shows "get_default EVENT_WEIGHTS (event_type ev) 0 = 0 \<and>
         interacted_products e' cid = interacted_products e cid \<and>
         (event_product_id ev \<in> set (purchased_products e (event_customer_id ev)) \<longrightarrow>
            recommend_for_customer e' cid top_n = recommend_for_customer e cid top_n \<and>
            strategy_breakdown e' cid top_n = strategy_breakdown e cid top_n)"
proof -
  have w: "get_default EVENT_WEIGHTS (event_type ev) 0 = 0"
    by (rule unknown_type_weight [OF assms(1)])
  have "interacted_products e' cid = interacted_products e cid"
    by (rule unknown_event_interacted [OF w engine_init_fields(1) [OF assms(2)]
          engine_init_fields(1) [OF assms(3)]])
  with w unknown_event_results [OF w assms(2,3)] show ?thesis by blast
qed

theorem unknown_event_adds_no_weight_witness:
  "\<exists>e e'. engine_init (build_graph newcomer_dataset) (85 / 100) (1 / 10 ^ 6) 1 = Inr e \<and>
     engine_init (build_graph (newcomer_dataset\<lparr>events := events newcomer_dataset @
         [repeated_share]\<rparr>)) (85 / 100) (1 / 10 ^ 6) 1 = Inr e' \<and>
     event_type repeated_share = ''share'' \<and>
     purchased_products e ''C3'' = [''P1''] \<and>
     interacted_products e' ''C3'' = interacted_products e ''C3'' \<and>
     recommend_for_customer e ''C3'' 3 = Inr C3_ranking \<and>
     recommend_for_customer e' ''C3'' 3 = Inr C3_ranking \<and>
     strategy_breakdown e' ''C3'' 3 = strategy_breakdown e ''C3'' 3"
proof -
  from newcomer_engine_run obtain e where
    init: "engine_init (build_graph newcomer_dataset) (85 / 100) (1 / 10 ^ 6) 1 = Inr e"
    and p: "purchased_products e ''C3'' = [''P1'']"
    and i: "interacted_products e ''C3'' = [''P1'']"
    and f: "fused_ranking e [''P1''] [''P1''] = Inr C3_ranking"
    unfolding C3_ranking_def by blast
  from engine_init_total [OF wf_adjacency_build_graph] obtain e' where
    init': "engine_init (build_graph (newcomer_dataset\<lparr>events := events newcomer_dataset @
         [repeated_share]\<rparr>)) (85 / 100) (1 / 10 ^ 6) 1 = Inr e'"
    by blast
  have t: "event_type repeated_share \<notin> {''view'', ''click'', ''add_to_cart''}"
    by (simp add: repeated_share_def)
  have k: "event_product_id repeated_share
      \<in> set (purchased_products e (event_customer_id repeated_share))"
    by (simp add: repeated_share_def p)
  have run: "recommend_for_customer e ''C3'' 3 = Inr C3_ranking"
    unfolding newcomer_recommend_C3 [OF init p i f] by (simp add: slice_to_def C3_ranking_def)
  from unknown_event_adds_no_weight [OF t init init', of "''C3''" 3] k run
  have "interacted_products e' ''C3'' = interacted_products e ''C3''"
    and "recommend_for_customer e' ''C3'' 3 = Inr C3_ranking"
    and "strategy_breakdown e' ''C3'' 3 = strategy_breakdown e ''C3'' 3"
    by simp_all
  with init init' p run show ?thesis
    by (intro exI [of _ e] exI [of _ e']) (simp add: repeated_share_def)
qed

lemma shared_engine_run:
  "\<exists>e. engine_init (build_graph shared_dataset) (85 / 100) (1 / 10 ^ 6) 1 = Inr e \<and>
     recommend_for_customer e ''C4'' 3 = Inr C3_ranking \<and>
     strategy_breakdown e ''C4'' 3 =
       Inr [(''co_occurrence'', [(''P2'', 1)]),
            (''similarity'', [(''P2'', 1 / 4), (''P3'', 1 / 4), (''P4'', 1 / 4)]),
            (''personalized_pagerank'',
             [(''P2'', 153 / 320), (''P4'', 51 / 320), (''P3'', 17 / 320)])]"
proof -
  have "case engine_init (build_graph shared_dataset) (85 / 100) (1 / 10 ^ 6) 1 of
          Inl err \<Rightarrow> False
        | Inr e \<Rightarrow>
            recommend_for_customer e ''C4'' 3 = Inr C3_ranking \<and>
            strategy_breakdown e ''C4'' 3 =
              Inr [(''co_occurrence'', [(''P2'', 1)]),
                   (''similarity'', [(''P2'', 1 / 4), (''P3'', 1 / 4), (''P4'', 1 / 4)]),
                   (''personalized_pagerank'',
                    [(''P2'', 153 / 320), (''P4'', 51 / 320), (''P3'', 17 / 320)])]"
    by code_simp
  then show ?thesis
    by (cases "engine_init (build_graph shared_dataset) (85 / 100) (1 / 10 ^ 6) 1") simp_all
qed

lemma newcomer_cold_results:
  assumes "engine_init (build_graph newcomer_dataset) d tol max_iter = Inr e"
    and "global_pagerank e =
       [(''P1'', 63 / 320), (''P2'', 33 / 64), (''P3'', 29 / 320), (''P4'', 63 / 320)]"
  shows "recommend_for_customer e ''C4'' 3 =
       Inr [\<lparr>rec_product_id = ''P2'', score = 33 / 64,
              contributions = [(''global_pagerank'', 33 / 64)]\<rparr>,
            \<lparr>rec_product_id = ''P1'', score = 63 / 320,
              contributions = [(''global_pagerank'', 63 / 320)]\<rparr>,
            \<lparr>rec_product_id = ''P4'', score = 63 / 320,
              contributions = [(''global_pagerank'', 63 / 320)]\<rparr>]"
    and "strategy_breakdown e ''C4'' 3 =
       Inr [(''global_pagerank'', [(''P2'', 33 / 64), (''P1'', 63 / 320), (''P4'', 63 / 320)])]"
proof -
  have g: "graph e = build_graph newcomer_dataset" by (rule engine_init_fields(1) [OF assms(1)])
  from newcomer_gets_global_pagerank [OF assms(1) newcomer_is_new, of 3] assms(2)
  show "recommend_for_customer e ''C4'' 3 =
       Inr [\<lparr>rec_product_id = ''P2'', score = 33 / 64,
              contributions = [(''global_pagerank'', 33 / 64)]\<rparr>,
            \<lparr>rec_product_id = ''P1'', score = 63 / 320,
              contributions = [(''global_pagerank'', 63 / 320)]\<rparr>,
            \<lparr>rec_product_id = ''P4'', score = 63 / 320,
              contributions = [(''global_pagerank'', 63 / 320)]\<rparr>]"
    by (simp add: slice_to_def)
  have "seed_products e ''C4'' = []"
    by (rule newcomer_has_no_seeds(3) [OF g newcomer_is_new(2,3)])
  then show "strategy_breakdown e ''C4'' 3 =
       Inr [(''global_pagerank'', [(''P2'', 33 / 64), (''P1'', 63 / 320), (''P4'', 63 / 320)])]"
    by (simp add: strategy_breakdown_def newcomer_known(2) [OF g] assms(2) top_items_def
        slice_to_def)
qed

theorem unknown_event_counterexample:
  "\<exists>e e'. engine_init (build_graph newcomer_dataset) (85 / 100) (1 / 10 ^ 6) 1 = Inr e \<and>
     engine_init (build_graph shared_dataset) (85 / 100) (1 / 10 ^ 6) 1 = Inr e' \<and>
     get_default EVENT_WEIGHTS ''share'' 0 = 0 \<and>
     recommend_for_customer e ''C4'' 3 =
       Inr [\<lparr>rec_product_id = ''P2'', score = 33 / 64,
              contributions = [(''global_pagerank'', 33 / 64)]\<rparr>,
            \<lparr>rec_product_id = ''P1'', score = 63 / 320,
              contributions = [(''global_pagerank'', 63 / 320)]\<rparr>,
            \<lparr>rec_product_id = ''P4'', score = 63 / 320,
              contributions = [(''global_pagerank'', 63 / 320)]\<rparr>] \<and>
     recommend_for_customer e' ''C4'' 3 = Inr C3_ranking \<and>
     recommend_for_customer e' ''C4'' 3 \<noteq> recommend_for_customer e ''C4'' 3 \<and>
     strategy_breakdown e' ''C4'' 3 \<noteq> strategy_breakdown e ''C4'' 3"
proof -
  from newcomer_engine_run obtain e where
    init: "engine_init (build_graph newcomer_dataset) (85 / 100) (1 / 10 ^ 6) 1 = Inr e"
    and gp: "global_pagerank e =
       [(''P1'', 63 / 320), (''P2'', 33 / 64), (''P3'', 29 / 320), (''P4'', 63 / 320)]"
    by blast
  from shared_engine_run obtain e' where
    init': "engine_init (build_graph shared_dataset) (85 / 100) (1 / 10 ^ 6) 1 = Inr e'"
    and r': "recommend_for_customer e' ''C4'' 3 = Inr C3_ranking"
    and b': "strategy_breakdown e' ''C4'' 3 =
       Inr [(''co_occurrence'', [(''P2'', 1)]),
            (''similarity'', [(''P2'', 1 / 4), (''P3'', 1 / 4), (''P4'', 1 / 4)]),
            (''personalized_pagerank'',
             [(''P2'', 153 / 320), (''P4'', 51 / 320), (''P3'', 17 / 320)])]"
    by blast
  note cold = newcomer_cold_results [OF init gp]
  have w: "get_default EVENT_WEIGHTS ''share'' 0 = 0"
    by (simp add: EVENT_WEIGHTS_def get_default_def)
  have nr: "recommend_for_customer e' ''C4'' 3 \<noteq> recommend_for_customer e ''C4'' 3"
    unfolding r' cold(1) by (simp add: C3_ranking_def)
  have nb: "strategy_breakdown e' ''C4'' 3 \<noteq> strategy_breakdown e ''C4'' 3"
    unfolding b' cold(2) by simp
  show ?thesis
    by (rule exI [of _ e], rule exI [of _ e']) (intro conjI init init' w cold(1) r' nr nb)
qed

theorem unknown_customer_iff_witness:
  "\<exists>e. engine_init (build_graph newcomer_dataset) (85 / 100) (1 / 10 ^ 6) 1 = Inr e \<and>
     recommend_for_customer e ''C999'' 3 = Inl (ValueError ''Unknown customer: C999'') \<and>
     strategy_breakdown e ''C999'' 3 = Inl (ValueError ''Unknown customer: C999'') \<and>
     recommend_for_customer e ''C4'' 3 \<noteq> Inl (ValueError ''Unknown customer: C4'') \<and>
     strategy_breakdown e ''C4'' 3 \<noteq> Inl (ValueError ''Unknown customer: C4'')"
proof -
  from newcomer_engine_run obtain e where
    init: "engine_init (build_graph newcomer_dataset) (85 / 100) (1 / 10 ^ 6) 1 = Inr e"
    by blast
  have g: "graph e = build_graph newcomer_dataset" by (rule engine_init_fields(1) [OF init])
  have ids: "customer_ids (dataset (graph e)) = [''C1'', ''C2'', ''C3'', ''C4'']"
    by (simp add: g customer_ids_def newcomer_customers)
  from unknown_customer_iff [of "''C999''" e 3] unknown_customer_iff [of "''C4''" e 3] ids init
  show ?thesis by simp
qed

end
